theory Spec2Isabelle
  imports Main "HOL-Library.Mapping" "HOL-Library.AList_Mapping"
begin

section \<open>Go strings: bytes, UTF-8 runes, trimming, case folding, integer parsing\<close>

text \<open>
  A Go \<^verbatim>\<open>string\<close> is a sequence of bytes and \<^verbatim>\<open>len(s)\<close> counts bytes, so a string is
  a \<^typ>\<open>char list\<close> (an Isabelle \<^typ>\<open>char\<close> is one byte) and \<^verbatim>\<open>len\<close> is
  \<^const>\<open>length\<close>. The functions of the Go standard library that the repository calls
  (\<^verbatim>\<open>strings.TrimSpace\<close>, \<^verbatim>\<open>strings.EqualFold\<close>, \<^verbatim>\<open>strconv.Atoi\<close>) are written out
  here after the library's behaviour, UTF-8 decoding included.
\<close>

definition byte :: "char \<Rightarrow> nat" where
  "byte c = of_char c"

definition RuneError :: int where
  "RuneError = 0xFFFD"

text \<open>
  \<^verbatim>\<open>utf8.DecodeRuneInString\<close>: the first rune of the string and its width in bytes. An
  empty string gives \<^verbatim>\<open>(RuneError, 0)\<close>, an invalid or truncated encoding gives
  \<^verbatim>\<open>(RuneError, 1)\<close>. The leading byte fixes the width and the range accepted for the
  second byte (the library's \<^verbatim>\<open>first\<close> and \<^verbatim>\<open>acceptRanges\<close> tables).
\<close>

definition DecodeRune :: "string \<Rightarrow> int \<times> nat" where
  "DecodeRune s =
     (case s of
        [] \<Rightarrow> (RuneError, 0)
      | c0 # _ \<Rightarrow>
          (let s0 = byte c0 in
           if s0 < 0x80 then (int s0, 1)
           else if s0 < 0xC2 \<or> 0xF4 < s0 then (RuneError, 1)
           else
             (let sz = (if s0 < 0xE0 then 2 else if s0 < 0xF0 then 3 else (4::nat));
                  lo = (if s0 = 0xE0 then 0xA0 else if s0 = 0xF0 then 0x90 else (0x80::nat));
                  hi = (if s0 = 0xED then 0x9F else if s0 = 0xF4 then 0x8F else (0xBF::nat))
              in
              if length s < sz then (RuneError, 1)
              else
                (let s1 = byte (s ! 1) in
                 if s1 < lo \<or> hi < s1 then (RuneError, 1)
                 else if sz \<le> 2 then (int ((s0 mod 32) * 64 + s1 mod 64), 2)
                 else
                   (let s2 = byte (s ! 2) in
                    if s2 < 0x80 \<or> 0xBF < s2 then (RuneError, 1)
                    else if sz \<le> 3
                      then (int ((s0 mod 16) * 4096 + (s1 mod 64) * 64 + s2 mod 64), 3)
                    else
                      (let s3 = byte (s ! 3) in
                       if s3 < 0x80 \<or> 0xBF < s3 then (RuneError, 1)
                       else (int ((s0 mod 8) * 262144 + (s1 mod 64) * 4096
                                   + (s2 mod 64) * 64 + s3 mod 64), 4)))))))"

text \<open>
  Ranging over a string (\<^verbatim>\<open>for _, r := range s\<close>) yields its runes one after the other. A
  non-empty string always decodes to a width of at least one, so dropping \<open>n - 1\<close> bytes of
  the tail is dropping \<open>n\<close> bytes of the string.
\<close>

fun runes :: "string \<Rightarrow> int list" where
  "runes [] = []"
| "runes (c # s) = (let (r, n) = DecodeRune (c # s) in r # runes (drop (n - 1) s))"

text \<open>
  \<^verbatim>\<open>utf8.RuneCountInString\<close>: the number of runes, that is of characters, of a string. An
  invalid byte counts as one rune of width one, as it does when ranging over the string.
  The binding tags \<^verbatim>\<open>min\<close> and \<^verbatim>\<open>max\<close> of the request count a string this way, whereas the
  built-in \<^verbatim>\<open>len\<close> counts its bytes.
\<close>

definition RuneCount :: "string \<Rightarrow> nat" where
  "RuneCount s = length (runes s)"

text \<open>\<^verbatim>\<open>utf8.RuneStart\<close>: the byte is not a continuation byte \<^verbatim>\<open>10xxxxxx\<close>.\<close>

definition RuneStart :: "nat \<Rightarrow> bool" where
  "RuneStart b = (\<not> (0x80 \<le> b \<and> b < 0xC0))"

text \<open>
  The backward scan of \<^verbatim>\<open>utf8.DecodeLastRuneInString\<close>:
  \<^verbatim>\<open>for start--; start >= lim; start-- { if RuneStart(s[start]) { break } }\<close>,
  with the number of indices left down to \<^verbatim>\<open>lim\<close> as the recursion argument.
\<close>

primrec scan_back :: "string \<Rightarrow> int \<Rightarrow> nat \<Rightarrow> int" where
  "scan_back s start 0 = start"
| "scan_back s start (Suc k) =
     (if RuneStart (byte (s ! nat start)) then start else scan_back s (start - 1) k)"

definition DecodeLastRune :: "string \<Rightarrow> int \<times> nat" where
  "DecodeLastRune s =
     (let end = int (length s) in
      if end = 0 then (RuneError, 0)
      else
        (let b = byte (s ! nat (end - 1)) in
         if b < 0x80 then (int b, 1)
         else
           (let lim = max 0 (end - 4);
                start0 = scan_back s (end - 2) (nat (end - 2 - lim + 1));
                start = (if start0 < 0 then 0 else start0);
                (r, size) = DecodeRune (drop (nat start) s)
            in if start + int size \<noteq> end then (RuneError, 1) else (r, size))))"

text \<open>\<^verbatim>\<open>unicode.IsSpace\<close>: the code points with the Unicode White_Space property.\<close>

definition IsSpace :: "int \<Rightarrow> bool" where
  "IsSpace r =
     ((0x09 \<le> r \<and> r \<le> 0x0D) \<or> r = 0x20 \<or> r = 0x85 \<or> r = 0xA0 \<or> r = 0x1680
      \<or> (0x2000 \<le> r \<and> r \<le> 0x200A) \<or> r = 0x2028 \<or> r = 0x2029 \<or> r = 0x202F
      \<or> r = 0x205F \<or> r = 0x3000)"

text \<open>
  \<^verbatim>\<open>strings.TrimLeftFunc(s, unicode.IsSpace)\<close> and
  \<^verbatim>\<open>strings.TrimRightFunc(s, unicode.IsSpace)\<close>: leading runes are decoded forwards and
  trailing runes backwards, and removed while they are white space.
  \<^verbatim>\<open>strings.TrimSpace\<close> removes both (its ASCII fast path gives the same result).
\<close>

fun TrimLeft :: "string \<Rightarrow> string" where
  "TrimLeft [] = []"
| "TrimLeft (c # s) =
     (let (r, n) = DecodeRune (c # s) in if IsSpace r then TrimLeft (drop (n - 1) s) else c # s)"

lemma DecodeRune_width: "s \<noteq> [] \<Longrightarrow> 1 \<le> snd (DecodeRune s)"
  by (cases s) (simp_all add: DecodeRune_def Let_def)

lemma scan_back_le: "scan_back s start k \<le> start"
proof (induction k arbitrary: start)
  case 0
  show ?case by simp
next
  case (Suc k)
  have "scan_back s (start - 1) k \<le> start - 1" by (rule Suc.IH)
  then show ?case by simp
qed

lemma DecodeLastRune_width: "s \<noteq> [] \<Longrightarrow> 1 \<le> snd (DecodeLastRune s)"
proof -
  assume ne: "s \<noteq> []"
  define k where "k = nat (int (length s) - 2 - max 0 (int (length s) - 4) + 1)"
  define start0 where "start0 = scan_back s (int (length s) - 2) k"
  define start where "start = (if start0 < 0 then 0 else start0)"
  define d where "d = DecodeRune (drop (nat start) s)"
  have "start0 \<le> int (length s) - 2"
    unfolding start0_def by (rule scan_back_le)
  moreover have "0 < length s" using ne by simp
  ultimately have lt: "start < int (length s)"
    unfolding start_def by auto
  have eq: "DecodeLastRune s =
      (if byte (s ! nat (int (length s) - 1)) < 0x80 then (int (byte (s ! nat (int (length s) - 1))), 1)
       else if start + int (snd d) \<noteq> int (length s) then (RuneError, 1) else d)"
    using ne
    by (simp add: DecodeLastRune_def Let_def k_def start0_def start_def d_def split: prod.splits)
  show ?thesis
  proof (cases "start + int (snd d) = int (length s)")
    case True
    with lt have "1 \<le> snd d" by linarith
    then show ?thesis unfolding eq by simp
  next
    case False
    then show ?thesis unfolding eq by simp
  qed
qed

function TrimRight :: "string \<Rightarrow> string" where
  "TrimRight s =
     (if s = [] then []
      else (let (r, n) = DecodeLastRune s in
            if IsSpace r then TrimRight (take (length s - n) s) else s))"
  by pat_completeness auto
termination
proof (relation "measure length")
  show "wf (measure length)" by simp
next
  fix s :: string and x :: "int \<times> nat" and r :: int and n :: nat
  assume "s \<noteq> []" and "x = DecodeLastRune s" and "(r, n) = x"
  then have "1 \<le> n"
    using DecodeLastRune_width [of s] by (metis snd_conv)
  with \<open>s \<noteq> []\<close> show "(take (length s - n) s, s) \<in> measure length"
    by (cases s) simp_all
qed

definition TrimSpace :: "string \<Rightarrow> string" where
  "TrimSpace s = TrimRight (TrimLeft s)"

text \<open>
  \<^verbatim>\<open>strings.EqualFold(s, t)\<close> compares the two strings rune by rune under simple Unicode
  case folding. Two runes match when they are equal. Otherwise the smaller one is taken as
  \<open>lo\<close> and the larger as \<open>hi\<close>. When both are ASCII they match only as an upper-case
  letter and its lower-case form. When \<open>hi\<close> is not ASCII the library walks the orbit of
  \<^verbatim>\<open>unicode.SimpleFold\<close> upwards from \<open>lo\<close> and asks whether it meets \<open>hi\<close>. For an ASCII
  \<open>lo\<close> the walk is fixed by the library's table \<^verbatim>\<open>asciiFold\<close>: a letter folds to its other
  case, except that \<^verbatim>\<open>k\<close> folds on to U+212A (the Kelvin sign, which folds back to \<^verbatim>\<open>K\<close>) and
  \<^verbatim>\<open>s\<close> to U+017F (the long s, which folds back to \<^verbatim>\<open>S\<close>), so the walk meets a non-ASCII \<open>hi\<close>
  only in these two orbits. For a non-ASCII \<open>lo\<close> the walk reads the Unicode case tables,
  which are not reproduced here: its outcome is the parameter \<open>orbit\<close>, called with \<open>lo\<close>
  and \<open>hi\<close>, and nothing is assumed about it.
\<close>

definition rune_fold_eq :: "(int \<Rightarrow> int \<Rightarrow> bool) \<Rightarrow> int \<Rightarrow> int \<Rightarrow> bool" where
  "rune_fold_eq orbit sr tr =
     (if tr = sr then True
      else
        (let lo = min sr tr; hi = max sr tr in
         if hi < 0x80 then (0x41 \<le> lo \<and> lo \<le> 0x5A \<and> hi = lo + 0x20)
         else if lo < 0x80
           then (((lo = 0x4B \<or> lo = 0x6B) \<and> hi = 0x212A)
                 \<or> ((lo = 0x53 \<or> lo = 0x73) \<and> hi = 0x17F))
         else orbit lo hi))"

fun EqualFold_runes :: "(int \<Rightarrow> int \<Rightarrow> bool) \<Rightarrow> int list \<Rightarrow> int list \<Rightarrow> bool" where
  "EqualFold_runes orbit [] [] = True"
| "EqualFold_runes orbit (sr # s) (tr # t) = (rune_fold_eq orbit sr tr \<and> EqualFold_runes orbit s t)"
| "EqualFold_runes orbit _ _ = False"

definition EqualFold :: "(int \<Rightarrow> int \<Rightarrow> bool) \<Rightarrow> string \<Rightarrow> string \<Rightarrow> bool" where
  "EqualFold orbit s t = EqualFold_runes orbit (runes s) (runes t)"

text \<open>
  \<^verbatim>\<open>strconv.Atoi\<close> on a 64-bit platform: an optional sign, then one or more decimal digits
  and nothing else; a value outside the range of \<^verbatim>\<open>int\<close> is an error as well. \<open>None\<close> is
  the error return.
\<close>

definition isDigit :: "char \<Rightarrow> bool" where
  "isDigit c = (0x30 \<le> byte c \<and> byte c \<le> 0x39)"

definition digits_value :: "string \<Rightarrow> int" where
  "digits_value ds = foldl (\<lambda>n c. n * 10 + (int (byte c) - 0x30)) 0 ds"

definition Atoi :: "string \<Rightarrow> int option" where
  "Atoi s =
     (let neg = (s \<noteq> [] \<and> hd s = CHR ''-'');
          ds = (if s \<noteq> [] \<and> (hd s = CHR ''-'' \<or> hd s = CHR ''+'') then tl s else s)
      in
      if ds = [] \<or> \<not> list_all isDigit ds then None
      else
        (let n = (if neg then - digits_value ds else digits_value ds) in
         if n < - (2 ^ 63) \<or> 2 ^ 63 - 1 < n then None else Some n))"

section \<open>Data model\<close>

text \<open>
  \<^verbatim>\<open>time.Time\<close> values are opaque instants; the clock reading \<^verbatim>\<open>time.Now()\<close> is an
  argument of every function that reads the clock. Go's \<^verbatim>\<open>int\<close> is modelled by \<^typ>\<open>int\<close>:
  the only arithmetic on it is the increment of the identifier counter, which starts at
  one and grows by one per stored module, and every stored module stays in the map, so the
  counter cannot come near the limit of a machine integer.
\<close>

type_synonym instant = nat

record Module =
  ID :: int
  Name :: string
  Description :: string
  IsActive :: bool
  CreatedAt :: instant

record ModuleRequest =
  reqName :: string
  reqDescription :: string
  reqIsActive :: bool

record ModuleResponse =
  respID :: int
  respName :: string
  respDescription :: string
  respIsActive :: bool
  respCreatedAt :: instant

text \<open>
  Error values. The five business errors are package variables, each made by one call of
  \<^verbatim>\<open>errors.New\<close>, and are told apart by identity. \<open>ErrorsNew msg\<close> is any other value made by
  \<^verbatim>\<open>errors.New\<close> (never identical to one of the five, whatever its text), and
  \<open>Errorf_w prefix err\<close> is \<^verbatim>\<open>fmt.Errorf(prefix + "%w", err)\<close>, which wraps \<open>err\<close>.
\<close>

datatype go_error =
  ErrNameRequired
| ErrNameLength
| ErrNameExists
| ErrDescriptionLength
| ErrNotFound
| ErrorsNew string
| Errorf_w string go_error

text \<open>\<^verbatim>\<open>err.Error()\<close>\<close>

fun Error_text :: "go_error \<Rightarrow> string" where
  "Error_text ErrNameRequired = ''module name is required''"
| "Error_text ErrNameLength = ''name must be 3-50 characters''"
| "Error_text ErrNameExists = ''module name already exists''"
| "Error_text ErrDescriptionLength = ''description exceeds 200 characters''"
| "Error_text ErrNotFound = ''module not found''"
| "Error_text (ErrorsNew msg) = msg"
| "Error_text (Errorf_w prefix err) = prefix @ Error_text err"

text \<open>
  \<^verbatim>\<open>errors.Is(err, target)\<close>: \<open>err\<close> or an error it wraps, at any depth, is \<open>target\<close>.
\<close>

fun errors_Is :: "go_error \<Rightarrow> go_error \<Rightarrow> bool" where
  "errors_Is (Errorf_w prefix err) target =
     (Errorf_w prefix err = target \<or> errors_Is err target)"
| "errors_Is err target = (err = target)"

section \<open>The in-memory repository\<close>

text \<open>
  The repository stores pointers: \<^verbatim>\<open>data map[int]*module.Module\<close>. A pointer is an address
  into a heap of modules, so that two map entries holding the same pointer share one module
  and a write through one is seen through the other. Allocation (\<^verbatim>\<open>&module.Module{...}\<close>)
  appends to the heap. The mutex is held for the whole of each method, so the methods
  are atomic steps on the pair of heap and repository.
\<close>

type_synonym addr = nat

record ModuleRepository =
  data :: "(int, addr) mapping"
  autoIncrementID :: int

record world =
  heap :: "Module list"
  repo :: ModuleRepository

definition NewModuleRepository :: ModuleRepository where
  "NewModuleRepository = \<lparr>data = Mapping.empty, autoIncrementID = 1\<rparr>"

text \<open>
  \<^verbatim>\<open>m.ID = r.autoIncrementID; r.autoIncrementID++; r.data[m.ID] = m; return m, nil\<close>.
  A pointer of the program always points at a module, so \<open>m\<close> is an index into the heap
  (\<open>m < length (heap w)\<close>); the properties below state this where a pointer comes from
  outside.
\<close>

definition repo_CreateModule :: "world \<Rightarrow> addr \<Rightarrow> world \<times> (go_error + addr)" where
  "repo_CreateModule w m =
     (let h1 = (heap w)[m := (heap w ! m)\<lparr>ID := autoIncrementID (repo w)\<rparr>];
          r1 = (repo w)\<lparr>autoIncrementID := autoIncrementID (repo w) + 1\<rparr>;
          r2 = r1\<lparr>data := Mapping.update (ID (h1 ! m)) m (data r1)\<rparr>
      in (\<lparr>heap = h1, repo = r2\<rparr>, Inr m))"

text \<open>
  The loop over the map returns true as soon as one entry matches, so its result is
  whether some entry matches, whatever the order of iteration.
\<close>

definition IsModuleNameExists ::
  "(int \<Rightarrow> int \<Rightarrow> bool) \<Rightarrow> world \<Rightarrow> string \<Rightarrow> int \<Rightarrow> go_error + bool" where
  "IsModuleNameExists orbit w name excludeId =
     Inr (\<exists>key \<in> Mapping.keys (data (repo w)).
            (case Mapping.lookup (data (repo w)) key of
               None \<Rightarrow> False
             | Some modp \<Rightarrow> EqualFold orbit (Name (heap w ! modp)) name \<and> key \<noteq> excludeId))"

definition repo_GetModuleById :: "world \<Rightarrow> string \<Rightarrow> go_error + addr option" where
  "repo_GetModuleById w id_str =
     (case Atoi id_str of
        None \<Rightarrow> Inl (ErrorsNew ''invalid ID format'')
      | Some moduleID \<Rightarrow> Inr (Mapping.lookup (data (repo w)) moduleID))"

section \<open>The service\<close>

text \<open>
  Both methods of the service end by copying the fields of an entity into a
  \<^verbatim>\<open>ModuleResponse\<close> literal; \<open>toResponse\<close> is that literal. \<^verbatim>\<open>CreateModule\<close> allocates its
  entity with the identifier left at zero and \<^verbatim>\<open>CreatedAt\<close> set to the clock reading \<open>now\<close>,
  and passes the new pointer to the repository. The parameter \<open>orbit\<close> is the one of
  \<open>EqualFold\<close>.
\<close>

definition toResponse :: "Module \<Rightarrow> ModuleResponse" where
  "toResponse e =
     \<lparr>respID = ID e, respName = Name e, respDescription = Description e,
      respIsActive = IsActive e, respCreatedAt = CreatedAt e\<rparr>"

definition service_CreateModule ::
  "(int \<Rightarrow> int \<Rightarrow> bool) \<Rightarrow> world \<Rightarrow> instant \<Rightarrow> ModuleRequest
     \<Rightarrow> world \<times> (go_error + ModuleResponse)" where
  "service_CreateModule orbit w now moduleDto =
     (if TrimSpace (reqName moduleDto) = [] then (w, Inl ErrNameRequired)
      else if length (reqName moduleDto) < 3 \<or> length (reqName moduleDto) > 50
        then (w, Inl ErrNameLength)
      else
        (case IsModuleNameExists orbit w (reqName moduleDto) 0 of
           Inl err \<Rightarrow> (w, Inl (Errorf_w ''database error checking name: '' err))
         | Inr exists \<Rightarrow>
             if exists then (w, Inl ErrNameExists)
             else if length (reqDescription moduleDto) > 200 then (w, Inl ErrDescriptionLength)
             else
               (let entity = length (heap w);
                    w1 = w\<lparr>heap := heap w @
                           [\<lparr>ID = 0, Name = reqName moduleDto,
                             Description = reqDescription moduleDto,
                             IsActive = reqIsActive moduleDto, CreatedAt = now\<rparr>]\<rparr>
                in case repo_CreateModule w1 entity of
                     (w2, Inl err) \<Rightarrow> (w2, Inl (Errorf_w ''database error creating module: '' err))
                   | (w2, Inr savedEntity) \<Rightarrow> (w2, Inr (toResponse (heap w2 ! savedEntity))))))"

definition service_GetModuleById :: "world \<Rightarrow> string \<Rightarrow> go_error + ModuleResponse" where
  "service_GetModuleById w id_str =
     (case repo_GetModuleById w id_str of
        Inl err \<Rightarrow> Inl err
      | Inr None \<Rightarrow> Inl ErrNotFound
      | Inr (Some entity) \<Rightarrow> Inr (toResponse (heap w ! entity)))"

section \<open>The response envelope\<close>

text \<open>
  \<^verbatim>\<open>Data interface{}\<close> holds any value or \<^verbatim>\<open>nil\<close>: an option of the payload type. A
  \<^verbatim>\<open>map[string][]string\<close> may be \<^verbatim>\<open>nil\<close> as well. The formatted clock reading
  \<^verbatim>\<open>time.Now().Format(time.RFC3339)\<close> is the argument \<open>ts\<close>.
\<close>

record APIError =
  Code :: string
  ErrMessage :: string
  Details :: "(string \<rightharpoonup> string list) option"

record ResponseMeta =
  RequestId :: string
  Timestamp :: string

record 'a APIResponse =
  Success :: bool
  Message :: string
  Data :: "'a option"
  Error :: "APIError option"
  Meta :: ResponseMeta

record ResponseMapper =
  requestID :: string

definition NewResponseMapper :: "string \<Rightarrow> ResponseMapper" where
  "NewResponseMapper rid = \<lparr>requestID = rid\<rparr>"

definition ResponseMapper_Success ::
  "ResponseMapper \<Rightarrow> string \<Rightarrow> 'a option \<Rightarrow> string \<Rightarrow> int \<Rightarrow> 'a APIResponse \<times> int" where
  "ResponseMapper_Success m ts data_arg message statusCode =
     (\<lparr>Success = True, Message = message, Data = data_arg, Error = None,
       Meta = \<lparr>RequestId = requestID m, Timestamp = ts\<rparr>\<rparr>, statusCode)"

definition ResponseMapper_Error ::
  "ResponseMapper \<Rightarrow> string \<Rightarrow> string \<Rightarrow> string \<Rightarrow> (string \<rightharpoonup> string list) option \<Rightarrow> int
     \<Rightarrow> 'a APIResponse \<times> int" where
  "ResponseMapper_Error m ts code message details statusCode =
     (\<lparr>Success = False, Message = message, Data = None,
       Error = Some \<lparr>Code = code, ErrMessage = message, Details = details\<rparr>,
       Meta = \<lparr>RequestId = requestID m, Timestamp = ts\<rparr>\<rparr>, statusCode)"

definition NewSuccessResponse :: "string \<Rightarrow> 'a option \<Rightarrow> string \<Rightarrow> string \<Rightarrow> 'a APIResponse" where
  "NewSuccessResponse ts data_arg message requestId =
     \<lparr>Success = True, Message = message, Data = data_arg, Error = None,
      Meta = \<lparr>RequestId = requestId, Timestamp = ts\<rparr>\<rparr>"

definition NewErrorResponse ::
  "string \<Rightarrow> string \<Rightarrow> string \<Rightarrow> (string \<rightharpoonup> string list) option \<Rightarrow> string \<Rightarrow> 'a APIResponse" where
  "NewErrorResponse ts code message details requestId =
     \<lparr>Success = False, Message = message, Data = None,
      Error = Some \<lparr>Code = code, ErrMessage = message, Details = details\<rparr>,
      Meta = \<lparr>RequestId = requestId, Timestamp = ts\<rparr>\<rparr>"

definition StatusToMessage :: "int \<Rightarrow> string" where
  "StatusToMessage statusCode =
     (if statusCode = 200 then ''Operation completed successfully''
      else if statusCode = 201 then ''Resource created successfully''
      else if statusCode = 400 then ''Invalid request parameters''
      else if statusCode = 404 then ''Resource not found''
      else if statusCode = 409 then ''Resource already exists''
      else ''An unexpected error occurred'')"

section \<open>The handler's translation of service errors\<close>

text \<open>
  \<^verbatim>\<open>handleServiceError\<close> ends with \<^verbatim>\<open>ctx.JSON(statusCode, response)\<close>: its result is the
  envelope and the status it sends.
\<close>

definition handleServiceError ::
  "go_error \<Rightarrow> ResponseMapper \<Rightarrow> string \<Rightarrow> 'a APIResponse \<times> int" where
  "handleServiceError err mapper ts =
     (let (statusCode, code, message) =
            (if errors_Is err ErrNameRequired \<or> errors_Is err ErrNameLength
                \<or> errors_Is err ErrDescriptionLength
               then (400, ''VALIDATION_ERROR'', StatusToMessage 400)
             else if errors_Is err ErrNameExists
               then (409, ''RESOURCE_CONFLICT'', StatusToMessage 409)
             else if errors_Is err ErrNotFound
               then (404, ''NOT_FOUND'', StatusToMessage 404)
             else (500, ''INTERNAL_ERROR'', StatusToMessage 500));
          details = (if statusCode = 400 then Some [''name'' \<mapsto> [Error_text err]] else None)
      in ResponseMapper_Error mapper ts code message details statusCode)"

section \<open>The exception middleware\<close>

text \<open>
  The middleware writes through gin's response writer, which is modelled as far as
  \<^verbatim>\<open>ctx.JSON\<close> and \<^verbatim>\<open>ctx.Writer.Status\<close> use it. The writer holds a status, 200 when the
  request starts, and knows whether the header has been sent (\<^verbatim>\<open>Written()\<close>). What has been
  sent as the body is a list of chunks: bytes written by a handler, or the JSON text of an
  envelope, which is represented by the envelope itself.

  \<^verbatim>\<open>WriteHeader\<close>, which is behind \<^verbatim>\<open>ctx.Status\<close>, stores a positive code that differs from the
  status held, but only while the header has not been sent; afterwards it prints a warning
  and leaves the status alone. \<^verbatim>\<open>WriteHeaderNow\<close> sends the header, with the status held at
  that moment, unless it has been sent. \<^verbatim>\<open>Write\<close> sends the header if need be and appends
  to the body. \<^verbatim>\<open>ctx.JSON(code, obj)\<close> is \<^verbatim>\<open>ctx.Status(code)\<close> followed by the rendering of
  \<^verbatim>\<open>obj\<close>; for a code that allows no body (1xx, 204 and 304) it sends the header only. So
  once the header has been sent the status of the writer is the status the caller has
  received, and it no longer changes. The \<^verbatim>\<open>Content-Type\<close> header is not modelled.

  The writer stores any positive code, but \<^verbatim>\<open>net/http\<close> below it panics when a header is
  sent with a code outside 100..999 and treats a code 1xx as an informational header that
  does not start the response. The model does not follow the writer there: it stands for
  the code on writers whose status is a final one, from 200 to 999, as every status is
  that the handlers of this program set.
\<close>

datatype 'a chunk =
  Bytes string
| Envelope "'a APIResponse"

record 'a responseWriter =
  w_status :: int
  w_written :: bool
  w_body :: "'a chunk list"

definition newResponseWriter :: "'a responseWriter" where
  "newResponseWriter = \<lparr>w_status = 200, w_written = False, w_body = []\<rparr>"










section \<open>Sequences of calls\<close>

text \<open>
  Calls on the repository by any client. A \<^verbatim>\<open>nil\<close> module makes \<^verbatim>\<open>CreateModule\<close> panic
  at its first statement, before any write, and the deferred unlock releases the mutex:
  the state is as before. The two queries only read.
\<close>

datatype repo_call =
  CallCreateModule "addr option"
| CallIsModuleNameExists string int
| CallGetModuleById string

fun repo_step :: "world \<Rightarrow> repo_call \<Rightarrow> world" where
  "repo_step w (CallCreateModule (Some m)) = fst (repo_CreateModule w m)"
| "repo_step w (CallCreateModule None) = w"
| "repo_step w (CallIsModuleNameExists name excludeId) = w"
| "repo_step w (CallGetModuleById id_str) = w"

definition repo_run :: "world \<Rightarrow> repo_call list \<Rightarrow> world" where
  "repo_run w cs = foldl repo_step w cs"

text \<open>The modules passed to \<^verbatim>\<open>CreateModule\<close>, and the identifiers the calls assign, in order.\<close>

fun create_args :: "repo_call list \<Rightarrow> addr list" where
  "create_args [] = []"
| "create_args (CallCreateModule (Some m) # cs) = m # create_args cs"
| "create_args (c # cs) = create_args cs"

fun assigned_ids :: "world \<Rightarrow> repo_call list \<Rightarrow> int list" where
  "assigned_ids w [] = []"
| "assigned_ids w (CallCreateModule (Some m) # cs) =
     (case repo_CreateModule w m of
        (w1, Inr saved) \<Rightarrow> ID (heap w1 ! saved) # assigned_ids w1 cs
      | (w1, Inl err) \<Rightarrow> assigned_ids w1 cs)"
| "assigned_ids w (c # cs) = assigned_ids (repo_step w c) cs"

text \<open>Calls on the service, the repository's only client in the program.\<close>

datatype service_call =
  CallServiceCreate instant ModuleRequest
| CallServiceGet string

fun service_step :: "(int \<Rightarrow> int \<Rightarrow> bool) \<Rightarrow> world \<Rightarrow> service_call \<Rightarrow> world" where
  "service_step orbit w (CallServiceCreate now dto) = fst (service_CreateModule orbit w now dto)"
| "service_step orbit w (CallServiceGet id_str) = w"

definition service_run :: "(int \<Rightarrow> int \<Rightarrow> bool) \<Rightarrow> world \<Rightarrow> service_call list \<Rightarrow> world" where
  "service_run orbit w cs = foldl (service_step orbit) w cs"

section \<open>Notions used to state the properties\<close>

text \<open>
  Following the specification's words "names differing only in case", for the letters of
  ASCII: two names differ only in the case of ASCII letters when they are the same byte
  for byte once every ASCII upper-case letter is replaced by its lower-case form. Letters
  outside ASCII have case variants too, which \<open>EqualFold\<close> relates.
\<close>

definition ascii_lower :: "char \<Rightarrow> char" where
  "ascii_lower c = (if 0x41 \<le> byte c \<and> byte c \<le> 0x5A then char_of (byte c + 0x20) else c)"

definition differ_only_in_case :: "string \<Rightarrow> string \<Rightarrow> bool" where
  "differ_only_in_case a b = (map ascii_lower a = map ascii_lower b)"

text \<open>The ASCII letters, for the lemmas on trimming.\<close>

definition is_ascii_letter :: "char \<Rightarrow> bool" where
  "is_ascii_letter c = ((0x41 \<le> byte c \<and> byte c \<le> 0x5A) \<or> (0x61 \<le> byte c \<and> byte c \<le> 0x7A))"

text \<open>
  Following the specification's table of business errors, HTTP statuses and codes; the
  table is read at the error that a chain of wrappings ends in.
\<close>

fun root_cause :: "go_error \<Rightarrow> go_error" where
  "root_cause (Errorf_w prefix err) = root_cause err"
| "root_cause err = err"

definition spec_error_table :: "go_error \<Rightarrow> int \<times> string" where
  "spec_error_table e =
     (case e of
        ErrNameRequired \<Rightarrow> (400, ''VALIDATION_ERROR'')
      | ErrNameLength \<Rightarrow> (400, ''VALIDATION_ERROR'')
      | ErrDescriptionLength \<Rightarrow> (400, ''VALIDATION_ERROR'')
      | ErrNameExists \<Rightarrow> (409, ''RESOURCE_CONFLICT'')
      | ErrNotFound \<Rightarrow> (404, ''NOT_FOUND'')
      | _ \<Rightarrow> (500, ''INTERNAL_ERROR''))"

text \<open>
  Invariants of the repository. \<open>repo_inv\<close> bounds the keys and the stored identifiers by
  the counter; \<open>key_inv w A\<close> says that every stored pointer is in \<open>A\<close> and that its module
  carries its key; \<open>service_inv\<close> is what the service maintains. \<open>name_stored w n\<close> says
  that some stored module is named \<open>n\<close>, and \<open>created_world\<close> is the state a successful
  \<^verbatim>\<open>CreateModule\<close> of the service leaves.
\<close>

definition repo_inv :: "world \<Rightarrow> bool" where
  "repo_inv w =
     (1 \<le> autoIncrementID (repo w) \<and>
      (\<forall>k m. Mapping.lookup (data (repo w)) k = Some m \<longrightarrow>
         1 \<le> k \<and> k < autoIncrementID (repo w) \<and> m < length (heap w)
         \<and> 1 \<le> ID (heap w ! m) \<and> ID (heap w ! m) < autoIncrementID (repo w)))"

definition key_inv :: "world \<Rightarrow> addr set \<Rightarrow> bool" where
  "key_inv w A =
     (\<forall>k m. Mapping.lookup (data (repo w)) k = Some m \<longrightarrow> m \<in> A \<and> ID (heap w ! m) = k)"

definition service_inv :: "world \<Rightarrow> bool" where
  "service_inv w =
     (1 \<le> autoIncrementID (repo w) \<and>
      (\<forall>k m. Mapping.lookup (data (repo w)) k = Some m \<longrightarrow>
         1 \<le> k \<and> k < autoIncrementID (repo w) \<and> m < length (heap w) \<and> ID (heap w ! m) = k))"

definition name_stored :: "world \<Rightarrow> string \<Rightarrow> bool" where
  "name_stored w n =
     (\<exists>k m. Mapping.lookup (data (repo w)) k = Some m \<and> Name (heap w ! m) = n)"

definition created_world :: "world \<Rightarrow> instant \<Rightarrow> ModuleRequest \<Rightarrow> world" where
  "created_world w now dto =
     \<lparr>heap = heap w @ [\<lparr>ID = autoIncrementID (repo w), Name = reqName dto,
                         Description = reqDescription dto, IsActive = reqIsActive dto,
                         CreatedAt = now\<rparr>],
      repo = \<lparr>data = Mapping.update (autoIncrementID (repo w)) (length (heap w)) (data (repo w)),
              autoIncrementID = autoIncrementID (repo w) + 1\<rparr>\<rparr>"

section \<open>Lemmas on runes, trimming and case folding\<close>

lemma byte_lt_256: "byte c < 256"
  by (simp add: byte_def)

lemma byte_inj: "byte c = byte d \<Longrightarrow> c = d"
  by (simp add: byte_def)

lemma byte_char_of: "n < 256 \<Longrightarrow> byte (char_of n) = n"
  by (simp add: byte_def)

lemma ascii_lower_eq_cases:
  assumes "ascii_lower c = ascii_lower d"
  shows "c = d \<or> (0x41 \<le> byte c \<and> byte c \<le> 0x5A \<and> byte d = byte c + 0x20)
           \<or> (0x41 \<le> byte d \<and> byte d \<le> 0x5A \<and> byte c = byte d + 0x20)"
proof -
  consider (uu) "0x41 \<le> byte c \<and> byte c \<le> 0x5A" "0x41 \<le> byte d \<and> byte d \<le> 0x5A"
    | (ul) "0x41 \<le> byte c \<and> byte c \<le> 0x5A" "\<not> (0x41 \<le> byte d \<and> byte d \<le> 0x5A)"
    | (lu) "\<not> (0x41 \<le> byte c \<and> byte c \<le> 0x5A)" "0x41 \<le> byte d \<and> byte d \<le> 0x5A"
    | (ll) "\<not> (0x41 \<le> byte c \<and> byte c \<le> 0x5A)" "\<not> (0x41 \<le> byte d \<and> byte d \<le> 0x5A)"
    by blast
  then show ?thesis
  proof cases
    case uu
    with assms have "char_of (byte c + 0x20) = (char_of (byte d + 0x20) :: char)"
      by (simp add: ascii_lower_def)
    then have "byte (char_of (byte c + 0x20)) = byte (char_of (byte d + 0x20))"
      by (rule arg_cong)
    with uu have "byte c = byte d" by (simp add: byte_char_of)
    then show ?thesis by (simp add: byte_inj)
  next
    case ul
    with assms have "char_of (byte c + 0x20) = d" by (simp add: ascii_lower_def)
    then have "byte (char_of (byte c + 0x20)) = byte d" by (rule arg_cong)
    with ul show ?thesis by (simp add: byte_char_of)
  next
    case lu
    with assms have "c = char_of (byte d + 0x20)" by (simp add: ascii_lower_def)
    then have "byte c = byte (char_of (byte d + 0x20))" by (rule arg_cong)
    with lu show ?thesis by (simp add: byte_char_of)
  next
    case ll
    with assms show ?thesis by (simp add: ascii_lower_def)
  qed
qed

lemma ascii_lower_eq_weak:
  "ascii_lower c = ascii_lower d \<Longrightarrow> c = d \<or> (byte c < 0x80 \<and> byte d < 0x80)"
  using ascii_lower_eq_cases [of c d] by auto

lemma differ_nth:
  assumes "map ascii_lower s = map ascii_lower t" and "i < length s"
  shows "s ! i = t ! i \<or> (byte (s ! i) < 0x80 \<and> byte (t ! i) < 0x80)"
proof -
  have len: "length s = length t" using assms(1) by (rule map_eq_imp_length_eq)
  have "map ascii_lower s ! i = map ascii_lower t ! i" using assms(1) by simp
  with assms(2) len have "ascii_lower (s ! i) = ascii_lower (t ! i)" by simp
  then show ?thesis by (rule ascii_lower_eq_weak)
qed

lemma DecodeRune_ascii2:
  assumes "byte x < 0x80" and "byte y < 0x80"
  shows "DecodeRune (c # x # r) = DecodeRune (c # y # r')"
  using assms by (simp add: DecodeRune_def Let_def)

lemma DecodeRune_ascii3:
  assumes "byte x < 0x80" and "byte y < 0x80"
  shows "DecodeRune (c # a # x # r) = DecodeRune (c # a # y # r')"
  using assms by (simp add: DecodeRune_def Let_def)

lemma DecodeRune_ascii4:
  assumes "byte x < 0x80" and "byte y < 0x80"
  shows "DecodeRune (c # a # b # x # r) = DecodeRune (c # a # b # y # r')"
  using assms by (simp add: DecodeRune_def Let_def)

lemma DecodeRune_first4:
  "DecodeRune (c # a # b # d # r) = DecodeRune (c # a # b # d # r')"
  by (simp add: DecodeRune_def Let_def)

lemma DecodeRune_differ:
  assumes eq: "map ascii_lower s = map ascii_lower t"
    and hd: "s \<noteq> []" "0x80 \<le> byte (hd s)"
  shows "DecodeRune s = DecodeRune t"
proof -
  have len: "length s = length t" using eq by (rule map_eq_imp_length_eq)
  have nth: "i < length s \<Longrightarrow> s ! i = t ! i \<or> (byte (s ! i) < 0x80 \<and> byte (t ! i) < 0x80)" for i
    using differ_nth [OF eq] by blast
  from hd obtain c s1 where s: "s = c # s1" by (cases s) auto
  with len obtain d t1 where t: "t = d # t1" by (cases t) auto
  have c: "d = c" using nth [of 0] hd s t by auto
  show ?thesis
  proof (cases s1)
    case Nil
    with s t c len show ?thesis by simp
  next
    case (Cons x1 s2)
    with s t len obtain y1 t2 where t1: "t1 = y1 # t2" by (cases t1) auto
    have p1: "x1 = y1 \<or> (byte x1 < 0x80 \<and> byte y1 < 0x80)"
      using nth [of 1] s t Cons t1 by simp
    show ?thesis
    proof (cases "x1 = y1")
      case False
      with p1 show ?thesis
        unfolding s t c Cons t1 by (intro DecodeRune_ascii2) auto
    next
      case x1: True
      show ?thesis
      proof (cases s2)
        case Nil
        with s t c len Cons t1 x1 show ?thesis by simp
      next
        case s2: (Cons x2 s3)
        with s t len Cons t1 obtain y2 t3 where t2: "t2 = y2 # t3" by (cases t2) auto
        have p2: "x2 = y2 \<or> (byte x2 < 0x80 \<and> byte y2 < 0x80)"
          using nth [of 2] s t Cons t1 s2 t2 by simp
        show ?thesis
        proof (cases "x2 = y2")
          case False
          with p2 show ?thesis
            unfolding s t c Cons t1 x1 s2 t2 by (intro DecodeRune_ascii3) auto
        next
          case x2: True
          show ?thesis
          proof (cases s3)
            case Nil
            with s t c len Cons t1 x1 s2 t2 x2 show ?thesis by simp
          next
            case s3: (Cons x3 s4)
            with s t len Cons t1 s2 t2 obtain y3 t4 where t3: "t3 = y3 # t4"
              by (cases t3) auto
            have p3: "x3 = y3 \<or> (byte x3 < 0x80 \<and> byte y3 < 0x80)"
              using nth [of 3] s t Cons t1 s2 t2 s3 t3 by simp
            show ?thesis
            proof (cases "x3 = y3")
              case False
              with p3 show ?thesis
                unfolding s t c Cons t1 x1 s2 t2 x2 s3 t3 by (intro DecodeRune_ascii4) auto
            next
              case True
              then show ?thesis
                unfolding s t c Cons t1 x1 s2 t2 x2 s3 t3 by (simp add: DecodeRune_first4 [of _ _ _ _ s4 t4])
            qed
          qed
        qed
      qed
    qed
  qed
qed

lemma DecodeRune_ascii: "byte c < 0x80 \<Longrightarrow> DecodeRune (c # r) = (int (byte c), 1)"
  by (simp add: DecodeRune_def)

lemma runes_Cons: "DecodeRune (c # s) = (r, n) \<Longrightarrow> runes (c # s) = r # runes (drop (n - 1) s)"
  by simp

lemma runes_ascii: "byte c < 0x80 \<Longrightarrow> runes (c # r) = int (byte c) # runes r"
  by (simp add: DecodeRune_ascii)

lemma rune_fold_eq_refl: "rune_fold_eq orbit r r"
  by (simp add: rune_fold_eq_def)

lemma rune_fold_eq_ascii_lower:
  assumes "ascii_lower c = ascii_lower d" and "byte c < 0x80"
  shows "byte d < 0x80 \<and> rune_fold_eq orbit (int (byte c)) (int (byte d))"
  using ascii_lower_eq_cases [OF assms(1)] assms(2)
  by (auto simp: rune_fold_eq_def Let_def min_def max_def)

lemma EqualFold_differ:
  "map ascii_lower s = map ascii_lower t \<Longrightarrow> EqualFold orbit s t"
proof (induction "length s" arbitrary: s t rule: less_induct)
  case less
  note eq = \<open>map ascii_lower s = map ascii_lower t\<close>
  show ?case
  proof (cases s)
    case Nil
    with eq show ?thesis by (simp add: EqualFold_def)
  next
    case (Cons c s1)
    with eq obtain d t1 where t: "t = d # t1" by (cases t) auto
    from eq Cons t have hd: "ascii_lower c = ascii_lower d"
      and tl: "map ascii_lower s1 = map ascii_lower t1" by simp_all
    show ?thesis
    proof (cases "byte c < 0x80")
      case True
      from rune_fold_eq_ascii_lower [OF hd True]
      have d: "byte d < 0x80" and m: "rune_fold_eq orbit (int (byte c)) (int (byte d))"
        by simp_all
      have "EqualFold orbit s1 t1"
        using less.hyps [of s1 t1] tl Cons by simp
      with True d m show ?thesis
        unfolding Cons t EqualFold_def by (simp add: runes_ascii del: runes.simps)
    next
      case False
      then have dec: "DecodeRune (c # s1) = DecodeRune (d # t1)"
        using DecodeRune_differ [of "c # s1" "d # t1"] hd tl by simp
      obtain r n where rn: "DecodeRune (c # s1) = (r, n)" by (cases "DecodeRune (c # s1)")
      have "map ascii_lower (drop (n - 1) s1) = map ascii_lower (drop (n - 1) t1)"
        using tl by (simp add: drop_map [symmetric])
      then have "EqualFold orbit (drop (n - 1) s1) (drop (n - 1) t1)"
        using less.hyps [of "drop (n - 1) s1" "drop (n - 1) t1"] Cons by simp
      moreover have "runes (c # s1) = r # runes (drop (n - 1) s1)"
        using rn by (rule runes_Cons)
      moreover have "runes (d # t1) = r # runes (drop (n - 1) t1)"
        using rn dec by (intro runes_Cons) simp
      ultimately show ?thesis
        unfolding Cons t EqualFold_def by (simp add: rune_fold_eq_refl del: runes.simps)
    qed
  qed
qed

lemma DecodeRune_multibyte:
  assumes "DecodeRune (c # v) = (r, n)" and "0x80 \<le> byte c"
  shows "(r = RuneError \<and> n = 1) \<or> (\<forall>x \<in> set (take (n - 1) v). 0x80 \<le> byte x)"
proof (cases v)
  case Nil
  then show ?thesis by simp
next
  case v: (Cons a v1)
  show ?thesis
  proof (cases v1)
    case Nil
    with assms v show ?thesis
      by (simp add: DecodeRune_def Let_def split: if_splits)
  next
    case v1: (Cons b v2)
    show ?thesis
    proof (cases v2)
      case Nil
      with assms v v1 show ?thesis
        by (simp add: DecodeRune_def Let_def split: if_splits)
    next
      case (Cons d v3)
      with assms v v1 show ?thesis
        by (simp add: DecodeRune_def Let_def split: if_splits)
    qed
  qed
qed

lemma IsSpace_RuneError: "\<not> IsSpace RuneError"
  by (simp add: IsSpace_def RuneError_def)

lemma DecodeRune_space_no_letter:
  assumes "DecodeRune v = (r, n)" and "IsSpace r" and "x \<in> set (take n v)"
  shows "\<not> is_ascii_letter x"
proof (cases v)
  case Nil
  with assms show ?thesis by simp
next
  case (Cons c v1)
  have n: "1 \<le> n" using DecodeRune_width [of v] assms(1) Cons by simp
  then have tk: "take n v = c # take (n - 1) v1"
    using Cons by (cases n) simp_all
  show ?thesis
  proof (cases "byte c < 0x80")
    case True
    with assms(1) Cons have "r = int (byte c)" and "n = 1"
      by (simp_all add: DecodeRune_ascii)
    with assms(2,3) tk show ?thesis
      by (auto simp: IsSpace_def is_ascii_letter_def)
  next
    case False
    with DecodeRune_multibyte [of c v1 r n] assms(1,2) Cons
    have "\<forall>y \<in> set (take (n - 1) v1). 0x80 \<le> byte y"
      by (auto simp: IsSpace_RuneError)
    with False assms(3) tk have "0x80 \<le> byte x" by auto
    then show ?thesis by (simp add: is_ascii_letter_def)
  qed
qed

lemma DecodeLastRune_cases:
  assumes ne: "s \<noteq> []"
  shows "\<exists>start. 0 \<le> start \<and> start < int (length s) \<and>
           DecodeLastRune s =
             (if byte (last s) < 0x80 then (int (byte (last s)), 1)
              else if start + int (snd (DecodeRune (drop (nat start) s))) \<noteq> int (length s)
                then (RuneError, 1)
              else DecodeRune (drop (nat start) s))"
proof -
  define k where "k = nat (int (length s) - 2 - max 0 (int (length s) - 4) + 1)"
  define start0 where "start0 = scan_back s (int (length s) - 2) k"
  define start where "start = (if start0 < 0 then 0 else start0)"
  have "start0 \<le> int (length s) - 2"
    unfolding start0_def by (rule scan_back_le)
  moreover have "0 < length s" using ne by simp
  ultimately have lt: "0 \<le> start \<and> start < int (length s)"
    unfolding start_def by auto
  have "nat (int (length s) - 1) = length s - 1" by arith
  then have l: "s ! nat (int (length s) - 1) = last s"
    using ne by (simp add: last_conv_nth)
  have "DecodeLastRune s =
      (if byte (last s) < 0x80 then (int (byte (last s)), 1)
       else if start + int (snd (DecodeRune (drop (nat start) s))) \<noteq> int (length s)
         then (RuneError, 1)
       else DecodeRune (drop (nat start) s))"
    using ne l
    by (simp add: DecodeLastRune_def Let_def k_def start0_def start_def split: prod.splits)
  with lt show ?thesis by blast
qed

lemma DecodeLastRune_space_no_letter:
  assumes ne: "u \<noteq> []" and dec: "DecodeLastRune u = (r, n)" and sp: "IsSpace r"
    and x: "x \<in> set (drop (length u - n) u)"
  shows "\<not> is_ascii_letter x"
proof -
  from DecodeLastRune_cases [OF ne] obtain start where
    st: "0 \<le> start" "start < int (length u)" and
    eq: "DecodeLastRune u =
             (if byte (last u) < 0x80 then (int (byte (last u)), 1)
              else if start + int (snd (DecodeRune (drop (nat start) u))) \<noteq> int (length u)
                then (RuneError, 1)
              else DecodeRune (drop (nat start) u))"
    by blast
  show ?thesis
  proof (cases "byte (last u) < 0x80")
    case True
    with eq dec have rn: "r = int (byte (last u))" "n = 1" by simp_all
    have "drop (length u - 1) u = [last u]"
      using ne by (metis append_butlast_last_id append_eq_conv_conj length_butlast)
    with x rn have "x = last u" by simp
    with sp rn show ?thesis by (auto simp: IsSpace_def is_ascii_letter_def)
  next
    case False
    show ?thesis
    proof (cases "start + int (snd (DecodeRune (drop (nat start) u))) = int (length u)")
      case True
      with False eq dec have d: "DecodeRune (drop (nat start) u) = (r, n)" by simp
      with True have sn: "start + int n = int (length u)" by simp
      then have s: "nat start = length u - n" by linarith
      from d s have d': "DecodeRune (drop (length u - n) u) = (r, n)" by simp
      from sn st have "n \<le> length u" by linarith
      then have "take n (drop (length u - n) u) = drop (length u - n) u" by simp
      with x have "x \<in> set (take n (drop (length u - n) u))" by simp
      with d' sp show ?thesis by (rule DecodeRune_space_no_letter)
    next
      case neq: False
      with False eq dec have "r = RuneError" by simp
      with sp show ?thesis by (simp add: IsSpace_RuneError)
    qed
  qed
qed

lemma TrimRight_empty_no_letter:
  "TrimRight u = [] \<Longrightarrow> x \<in> set u \<Longrightarrow> \<not> is_ascii_letter x"
proof (induction u rule: TrimRight.induct)
  case (1 s)
  show ?case
  proof (cases "s = []")
    case True
    with "1.prems" show ?thesis by simp
  next
    case ne: False
    obtain r n where rn: "DecodeLastRune s = (r, n)" by (cases "DecodeLastRune s")
    have sp: "IsSpace r"
    proof (rule ccontr)
      assume "\<not> IsSpace r"
      with ne rn have "TrimRight s = s" by (subst TrimRight.simps) simp
      with "1.prems"(1) ne show False by simp
    qed
    with ne rn have "TrimRight s = TrimRight (take (length s - n) s)"
      by (subst TrimRight.simps) simp
    with "1.prems"(1) have e: "TrimRight (take (length s - n) s) = []" by simp
    have "x \<in> set (take (length s - n) s) \<or> x \<in> set (drop (length s - n) s)"
      using "1.prems"(2) by (metis Un_iff append_take_drop_id set_append)
    then show ?thesis
    proof
      assume "x \<in> set (take (length s - n) s)"
      with "1.IH" [OF ne rn [symmetric] refl sp e] show ?thesis by simp
    next
      assume "x \<in> set (drop (length s - n) s)"
      with ne rn sp show ?thesis by (rule DecodeLastRune_space_no_letter)
    qed
  qed
qed

lemma TrimLeft_keeps_letters:
  "x \<in> set s \<Longrightarrow> is_ascii_letter x \<Longrightarrow> x \<in> set (TrimLeft s)"
proof (induction s rule: TrimLeft.induct)
  case 1
  then show ?case by simp
next
  case (2 c s)
  obtain r n where rn: "DecodeRune (c # s) = (r, n)" by (cases "DecodeRune (c # s)")
  show ?case
  proof (cases "IsSpace r")
    case False
    with rn "2.prems" show ?thesis by simp
  next
    case True
    have n: "1 \<le> n" using DecodeRune_width [of "c # s"] rn by simp
    then have dr: "drop n (c # s) = drop (n - 1) s" by (cases n) simp_all
    have "x \<notin> set (take n (c # s))"
      using DecodeRune_space_no_letter [OF rn True] "2.prems"(2) by blast
    moreover have "x \<in> set (take n (c # s)) \<or> x \<in> set (drop n (c # s))"
      using "2.prems"(1) by (metis Un_iff append_take_drop_id set_append)
    ultimately have "x \<in> set (drop (n - 1) s)" using dr by simp
    with "2.IH" [OF rn [symmetric] refl True] "2.prems"(2)
    have "x \<in> set (TrimLeft (drop (n - 1) s))" by simp
    with rn True show ?thesis by simp
  qed
qed

lemma TrimSpace_empty_no_letter:
  assumes "TrimSpace s = []" and "x \<in> set s"
  shows "\<not> is_ascii_letter x"
proof
  assume l: "is_ascii_letter x"
  with assms(2) have "x \<in> set (TrimLeft s)" by (rule TrimLeft_keeps_letters)
  with assms(1) l show False
    unfolding TrimSpace_def using TrimRight_empty_no_letter by blast
qed

lemma differ_no_letter_eq:
  assumes eq: "map ascii_lower a = map ascii_lower b"
    and nl: "\<forall>x \<in> set b. \<not> is_ascii_letter x"
  shows "a = b"
proof (rule nth_equalityI)
  show len: "length a = length b" using eq by (rule map_eq_imp_length_eq)
  fix i assume i: "i < length a"
  have "map ascii_lower a ! i = map ascii_lower b ! i" using eq by simp
  with i len have "ascii_lower (a ! i) = ascii_lower (b ! i)" by simp
  from ascii_lower_eq_cases [OF this] show "a ! i = b ! i"
  proof (elim disjE)
    assume "a ! i = b ! i" then show ?thesis .
  next
    assume "0x41 \<le> byte (a ! i) \<and> byte (a ! i) \<le> 0x5A \<and> byte (b ! i) = byte (a ! i) + 0x20"
    then have "is_ascii_letter (b ! i)" by (simp add: is_ascii_letter_def)
    with nl i len show ?thesis by simp
  next
    assume "0x41 \<le> byte (b ! i) \<and> byte (b ! i) \<le> 0x5A \<and> byte (a ! i) = byte (b ! i) + 0x20"
    then have "is_ascii_letter (b ! i)" by (simp add: is_ascii_letter_def)
    with nl i len show ?thesis by simp
  qed
qed

lemma TrimSpace_differ:
  assumes "differ_only_in_case a b" and "TrimSpace a \<noteq> []"
  shows "TrimSpace b \<noteq> []"
proof
  assume e: "TrimSpace b = []"
  then have "\<forall>x \<in> set b. \<not> is_ascii_letter x"
    using TrimSpace_empty_no_letter by blast
  with assms(1) have "a = b"
    unfolding differ_only_in_case_def by (rule differ_no_letter_eq)
  with e assms(2) show False by simp
qed

lemma DecodeRune_kelvin: "DecodeRune (CHR 0xE2 # CHR 0x84 # CHR 0xAA # r) = (0x212A, 3)"
  by (simp add: DecodeRune_def byte_def Let_def)

lemma runes_kelvin:
  "runes (concat (replicate n [CHR 0xE2, CHR 0x84, CHR 0xAA])) = replicate n 0x212A"
proof (induction n)
  case 0
  show ?case by simp
next
  case (Suc n)
  have "runes (CHR 0xE2 # CHR 0x84 # CHR 0xAA # concat (replicate n [CHR 0xE2, CHR 0x84, CHR 0xAA]))
      = 0x212A # runes (drop (3 - 1) (CHR 0x84 # CHR 0xAA
          # concat (replicate n [CHR 0xE2, CHR 0x84, CHR 0xAA])))"
    using DecodeRune_kelvin by (rule runes_Cons)
  with Suc show ?case by simp
qed

lemma runes_k: "runes (replicate n CHR ''k'') = replicate n 0x6B"
proof (induction n)
  case 0
  show ?case by simp
next
  case (Suc n)
  have "byte CHR ''k'' < 0x80" by (simp add: byte_def)
  then have "runes (CHR ''k'' # replicate n CHR ''k'') = int (byte CHR ''k'') # runes (replicate n CHR ''k'')"
    by (rule runes_ascii)
  with Suc show ?case by (simp add: byte_def)
qed

lemma EqualFold_kelvin:
  "EqualFold orbit (replicate n CHR ''k'') (concat (replicate n [CHR 0xE2, CHR 0x84, CHR 0xAA]))"
proof -
  have "EqualFold_runes orbit (replicate n 0x6B) (replicate n 0x212A)"
    by (induction n) (simp_all add: rune_fold_eq_def)
  then show ?thesis by (simp add: EqualFold_def runes_k runes_kelvin)
qed

lemma RuneCount_le: "RuneCount s \<le> length s"
  unfolding RuneCount_def
proof (induction s rule: runes.induct)
  case 1
  show ?case by simp
next
  case (2 c s)
  obtain r n where d: "DecodeRune (c # s) = (r, n)" by (cases "DecodeRune (c # s)")
  from 2 [OF d [symmetric] refl]
  have "length (runes (drop (n - 1) s)) \<le> length (drop (n - 1) s)" .
  also have "\<dots> \<le> length s" by simp
  finally show ?case using d by simp
qed

lemma RuneCount_ascii: "\<forall>c \<in> set s. byte c < 0x80 \<Longrightarrow> RuneCount s = length s"
  unfolding RuneCount_def
proof (induction s)
  case Nil
  show ?case by simp
next
  case (Cons c s)
  from Cons.prems have "byte c < 0x80" by simp
  then have "runes (c # s) = int (byte c) # runes s" by (rule runes_ascii)
  with Cons show ?case by simp
qed

lemma EqualFold_runes_length: "EqualFold_runes orbit rs ts \<Longrightarrow> length rs = length ts"
  by (induction orbit rs ts rule: EqualFold_runes.induct) simp_all

lemma EqualFold_RuneCount: "EqualFold orbit s t \<Longrightarrow> RuneCount s = RuneCount t"
  unfolding EqualFold_def RuneCount_def by (rule EqualFold_runes_length)

lemma RuneCount_kelvin: "RuneCount (concat (replicate n [CHR 0xE2, CHR 0x84, CHR 0xAA])) = n"
  by (simp add: RuneCount_def runes_kelvin)

lemma DecodeRune_e_acute: "DecodeRune (CHR 0xC3 # CHR 0xA9 # r) = (0xE9, 2)"
  by (simp add: DecodeRune_def byte_def Let_def)

lemma runes_e_acute: "runes (concat (replicate n [CHR 0xC3, CHR 0xA9])) = replicate n 0xE9"
proof (induction n)
  case 0
  show ?case by simp
next
  case (Suc n)
  have "runes (CHR 0xC3 # CHR 0xA9 # concat (replicate n [CHR 0xC3, CHR 0xA9]))
      = 0xE9 # runes (drop (2 - 1) (CHR 0xA9 # concat (replicate n [CHR 0xC3, CHR 0xA9])))"
    using DecodeRune_e_acute by (rule runes_Cons)
  with Suc show ?case by simp
qed

lemma RuneCount_e_acute: "RuneCount (concat (replicate n [CHR 0xC3, CHR 0xA9])) = n"
  by (simp add: RuneCount_def runes_e_acute)

lemma length_concat_replicate: "length (concat (replicate n xs)) = n * length xs"
  by (induction n) simp_all

section \<open>Lemmas on the repository\<close>

lemma repo_CreateModule_world:
  "m < length (heap w) \<Longrightarrow>
   repo_CreateModule w m =
     (\<lparr>heap = (heap w)[m := (heap w ! m)\<lparr>ID := autoIncrementID (repo w)\<rparr>],
       repo = \<lparr>data = Mapping.update (autoIncrementID (repo w)) m (data (repo w)),
               autoIncrementID = autoIncrementID (repo w) + 1\<rparr>\<rparr>, Inr m)"
  by (simp add: repo_CreateModule_def Let_def)

lemma repo_step_length: "length (heap (repo_step w c)) = length (heap w)"
  by (cases "(w, c)" rule: repo_step.cases) (simp_all add: repo_CreateModule_def Let_def)

lemma repo_run_Cons: "repo_run w (c # cs) = repo_run (repo_step w c) cs"
  by (simp add: repo_run_def)

lemma repo_run_Nil: "repo_run w [] = w"
  by (simp add: repo_run_def)

lemma repo_inv_create:
  assumes inv: "repo_inv w" and m: "m < length (heap w)"
  shows "repo_inv (fst (repo_CreateModule w m))"
proof -
  let ?a = "autoIncrementID (repo w)"
  have a: "1 \<le> ?a" using inv by (simp add: repo_inv_def)
  have old: "1 \<le> k \<and> k < ?a \<and> p < length (heap w) \<and> 1 \<le> ID (heap w ! p) \<and> ID (heap w ! p) < ?a"
    if "Mapping.lookup (data (repo w)) k = Some p" for k p
    using inv that by (simp add: repo_inv_def)
  have new: "1 \<le> k \<and> k < ?a + 1 \<and> p < length (heap w)
          \<and> 1 \<le> ID ((heap w)[m := (heap w ! m)\<lparr>ID := ?a\<rparr>] ! p)
          \<and> ID ((heap w)[m := (heap w ! m)\<lparr>ID := ?a\<rparr>] ! p) < ?a + 1"
    if l: "Mapping.lookup (Mapping.update ?a m (data (repo w))) k = Some p" for k p
  proof (cases "k = ?a")
    case True
    with l have "p = m" by (simp add: Mapping.lookup_update)
    with True a m show ?thesis by simp
  next
    case False
    with l have "Mapping.lookup (data (repo w)) k = Some p"
      by (simp add: Mapping.lookup_update_neq)
    from old [OF this] a m show ?thesis
      by (cases "p = m") simp_all
  qed
  have "1 \<le> ?a + 1" using a by simp
  with new show ?thesis
    unfolding repo_inv_def repo_CreateModule_world [OF m] by simp
qed

lemma create_args_Cons: "create_args (c # cs) = create_args [c] @ create_args cs"
  by (cases "(c # cs)" rule: create_args.cases) simp_all

lemma repo_inv_step:
  assumes "repo_inv w" and "\<forall>m \<in> set (create_args [c]). m < length (heap w)"
  shows "repo_inv (repo_step w c)"
proof (cases c)
  case (CallCreateModule x)
  with assms show ?thesis
    by (cases x) (simp_all add: repo_inv_create)
next
  case (CallIsModuleNameExists name excludeId)
  with assms show ?thesis by simp
next
  case (CallGetModuleById id_str)
  with assms show ?thesis by simp
qed

lemma repo_inv_run:
  "repo_inv w \<Longrightarrow> \<forall>m \<in> set (create_args cs). m < length (heap w) \<Longrightarrow> repo_inv (repo_run w cs)"
proof (induction cs arbitrary: w)
  case Nil
  then show ?case by (simp add: repo_run_Nil)
next
  case (Cons c cs)
  from Cons.prems(2) have v: "\<forall>m \<in> set (create_args [c]). m < length (heap w)"
    and vs: "\<forall>m \<in> set (create_args cs). m < length (heap w)"
    by (simp_all add: create_args_Cons [of c cs])
  from Cons.prems(1) v have "repo_inv (repo_step w c)" by (rule repo_inv_step)
  moreover from vs have "\<forall>m \<in> set (create_args cs). m < length (heap (repo_step w c))"
    by (simp add: repo_step_length)
  ultimately show ?case
    using Cons.IH [of "repo_step w c"] by (simp add: repo_run_Cons)
qed

lemma key_inv_create:
  assumes inv: "key_inv w A" and m: "m < length (heap w)" and fresh: "m \<notin> A"
  shows "key_inv (fst (repo_CreateModule w m)) (insert m A)"
proof -
  let ?a = "autoIncrementID (repo w)"
  have "p \<in> insert m A \<and> ID ((heap w)[m := (heap w ! m)\<lparr>ID := ?a\<rparr>] ! p) = k"
    if l: "Mapping.lookup (Mapping.update ?a m (data (repo w))) k = Some p" for k p
  proof (cases "k = ?a")
    case True
    with l have "p = m" by (simp add: Mapping.lookup_update)
    with True m show ?thesis by simp
  next
    case False
    with l have "Mapping.lookup (data (repo w)) k = Some p"
      by (simp add: Mapping.lookup_update_neq)
    with inv have "p \<in> A \<and> ID (heap w ! p) = k" by (simp add: key_inv_def)
    with fresh show ?thesis by (cases "p = m") simp_all
  qed
  then show ?thesis
    unfolding key_inv_def repo_CreateModule_world [OF m] by simp
qed

lemma key_inv_step:
  assumes "key_inv w A" and "\<forall>m \<in> set (create_args [c]). m < length (heap w)"
    and "set (create_args [c]) \<inter> A = {}"
  shows "key_inv (repo_step w c) (A \<union> set (create_args [c]))"
proof (cases c)
  case (CallCreateModule x)
  with assms show ?thesis
    by (cases x) (simp_all add: key_inv_create)
next
  case (CallIsModuleNameExists name excludeId)
  with assms show ?thesis by simp
next
  case (CallGetModuleById id_str)
  with assms show ?thesis by simp
qed

lemma key_inv_run:
  "key_inv w A \<Longrightarrow> \<forall>m \<in> set (create_args cs). m < length (heap w) \<Longrightarrow>
   distinct (create_args cs) \<Longrightarrow> set (create_args cs) \<inter> A = {} \<Longrightarrow>
   key_inv (repo_run w cs) (A \<union> set (create_args cs))"
proof (induction cs arbitrary: w A)
  case Nil
  then show ?case by (simp add: repo_run_Nil)
next
  case (Cons c cs)
  note split = create_args_Cons [of c cs]
  from Cons.prems(2) have v: "\<forall>m \<in> set (create_args [c]). m < length (heap w)"
    and vs: "\<forall>m \<in> set (create_args cs). m < length (heap (repo_step w c))"
    by (simp_all add: split repo_step_length)
  from Cons.prems(3) have d: "distinct (create_args cs)"
    and dj: "set (create_args [c]) \<inter> set (create_args cs) = {}"
    by (simp_all add: split)
  from Cons.prems(4) have f: "set (create_args [c]) \<inter> A = {}"
    and fs: "set (create_args cs) \<inter> A = {}"
    by (auto simp: split)
  from Cons.prems(1) v f have "key_inv (repo_step w c) (A \<union> set (create_args [c]))"
    by (rule key_inv_step)
  moreover from dj fs have "set (create_args cs) \<inter> (A \<union> set (create_args [c])) = {}"
    by auto
  ultimately have "key_inv (repo_run (repo_step w c) cs)
      ((A \<union> set (create_args [c])) \<union> set (create_args cs))"
    using vs d by (intro Cons.IH)
  moreover have "(A \<union> set (create_args [c])) \<union> set (create_args cs)
      = A \<union> set (create_args (c # cs))"
    by (auto simp: split)
  ultimately show ?case by (simp add: repo_run_Cons)
qed

lemma assigned_ids_step:
  assumes "\<forall>m \<in> set (create_args [c]). m < length (heap w)"
  shows "assigned_ids w (c # cs)
           = map (\<lambda>m. autoIncrementID (repo w)) (create_args [c]) @ assigned_ids (repo_step w c) cs
         \<and> autoIncrementID (repo (repo_step w c))
             = autoIncrementID (repo w) + int (length (create_args [c]))"
proof (cases c)
  case (CallCreateModule x)
  with assms show ?thesis
    by (cases x) (simp_all add: repo_CreateModule_world)
next
  case (CallIsModuleNameExists name excludeId)
  then show ?thesis by simp
next
  case (CallGetModuleById id_str)
  then show ?thesis by simp
qed

lemma create_args_single: "length (create_args [c]) \<le> 1"
  by (cases "[c]" rule: create_args.cases) simp_all

lemma assigned_ids_run:
  "\<forall>m \<in> set (create_args cs). m < length (heap w) \<Longrightarrow>
   assigned_ids w cs =
     [autoIncrementID (repo w) .. autoIncrementID (repo w) + int (length (create_args cs)) - 1]
   \<and> autoIncrementID (repo (repo_run w cs))
       = autoIncrementID (repo w) + int (length (create_args cs))"
proof (induction cs arbitrary: w)
  case Nil
  then show ?case by (simp add: repo_run_Nil)
next
  case (Cons c cs)
  note split = create_args_Cons [of c cs]
  let ?a = "autoIncrementID (repo w)"
  let ?n = "int (length (create_args cs))"
  from Cons.prems have v: "\<forall>m \<in> set (create_args [c]). m < length (heap w)"
    and vs: "\<forall>m \<in> set (create_args cs). m < length (heap (repo_step w c))"
    by (simp_all add: split repo_step_length)
  from assigned_ids_step [OF v, of cs]
  have st: "assigned_ids w (c # cs)
              = map (\<lambda>m. ?a) (create_args [c]) @ assigned_ids (repo_step w c) cs"
    and a': "autoIncrementID (repo (repo_step w c)) = ?a + int (length (create_args [c]))"
    by simp_all
  from Cons.IH [OF vs] a'
  have ih: "assigned_ids (repo_step w c) cs
              = [?a + int (length (create_args [c])) .. ?a + int (length (create_args [c])) + ?n - 1]"
    and fin: "autoIncrementID (repo (repo_run (repo_step w c) cs))
              = ?a + int (length (create_args [c])) + ?n"
    by simp_all
  consider (none) "create_args [c] = []" | (one) m where "create_args [c] = [m]"
    using create_args_single [of c] by (cases "create_args [c]") auto
  then have "assigned_ids w (c # cs) = [?a .. ?a + int (length (create_args (c # cs))) - 1]"
  proof cases
    case none
    with st ih show ?thesis by (simp add: split)
  next
    case one
    with st ih have "assigned_ids w (c # cs) = ?a # [?a + 1 .. ?a + ?n]"
      by (simp add: algebra_simps)
    also have "\<dots> = [?a .. ?a + ?n]" by (simp add: upto_rec1)
    finally show ?thesis using one by (simp add: split)
  qed
  with fin show ?case by (simp add: repo_run_Cons split algebra_simps)
qed

lemma repo_inv_init: "repo_inv \<lparr>heap = h0, repo = NewModuleRepository\<rparr>"
  by (simp add: repo_inv_def NewModuleRepository_def Mapping.lookup_empty)

lemma key_inv_init: "key_inv \<lparr>heap = h0, repo = NewModuleRepository\<rparr> {}"
  by (simp add: key_inv_def NewModuleRepository_def Mapping.lookup_empty)

section \<open>Lemmas on the service\<close>

lemma service_CreateModule_cases:
  "service_CreateModule orbit w now dto =
     (if TrimSpace (reqName dto) = [] then (w, Inl ErrNameRequired)
      else if length (reqName dto) < 3 \<or> 50 < length (reqName dto) then (w, Inl ErrNameLength)
      else if IsModuleNameExists orbit w (reqName dto) 0 = Inr True then (w, Inl ErrNameExists)
      else if 200 < length (reqDescription dto) then (w, Inl ErrDescriptionLength)
      else (created_world w now dto,
            Inr \<lparr>respID = autoIncrementID (repo w), respName = reqName dto,
                 respDescription = reqDescription dto, respIsActive = reqIsActive dto,
                 respCreatedAt = now\<rparr>))"
  by (auto simp: service_CreateModule_def IsModuleNameExists_def repo_CreateModule_def
        created_world_def Let_def toResponse_def split: sum.splits prod.splits)

lemma service_step_cases:
  "service_step orbit w c = w \<or> (\<exists>now dto. service_step orbit w c = created_world w now dto)"
  by (cases c) (auto simp: service_CreateModule_cases)

lemma service_inv_created:
  assumes inv: "service_inv w"
  shows "service_inv (created_world w now dto)"
proof -
  let ?a = "autoIncrementID (repo w)"
  let ?e = "\<lparr>ID = ?a, Name = reqName dto, Description = reqDescription dto,
             IsActive = reqIsActive dto, CreatedAt = now\<rparr>"
  have a: "1 \<le> ?a" using inv by (simp add: service_inv_def)
  have "1 \<le> k \<and> k < ?a + 1 \<and> p < Suc (length (heap w)) \<and> ID ((heap w @ [?e]) ! p) = k"
    if l: "Mapping.lookup (Mapping.update ?a (length (heap w)) (data (repo w))) k = Some p" for k p
  proof (cases "k = ?a")
    case True
    with l have "p = length (heap w)" by (simp add: Mapping.lookup_update)
    with True a show ?thesis by simp
  next
    case False
    with l have "Mapping.lookup (data (repo w)) k = Some p"
      by (simp add: Mapping.lookup_update_neq)
    with inv have "1 \<le> k \<and> k < ?a \<and> p < length (heap w) \<and> ID (heap w ! p) = k"
      by (simp add: service_inv_def)
    then show ?thesis by (simp add: nth_append)
  qed
  moreover have "1 \<le> ?a + 1" using a by simp
  ultimately show ?thesis
    unfolding service_inv_def created_world_def by simp
qed

lemma name_stored_created_old:
  assumes inv: "service_inv w" and st: "name_stored w n"
  shows "name_stored (created_world w now dto) n"
proof -
  from st obtain k m where l: "Mapping.lookup (data (repo w)) k = Some m"
    and n: "Name (heap w ! m) = n" by (auto simp: name_stored_def)
  from inv l have "k < autoIncrementID (repo w)" and "m < length (heap w)"
    by (simp_all add: service_inv_def)
  with l n have "Mapping.lookup (data (repo (created_world w now dto))) k = Some m
      \<and> Name (heap (created_world w now dto) ! m) = n"
    by (simp add: created_world_def Mapping.lookup_update_neq nth_append)
  then show ?thesis unfolding name_stored_def by blast
qed

lemma name_stored_created_new: "name_stored (created_world w now dto) (reqName dto)"
proof -
  have "Mapping.lookup (data (repo (created_world w now dto))) (autoIncrementID (repo w))
          = Some (length (heap w))
      \<and> Name (heap (created_world w now dto) ! length (heap w)) = reqName dto"
    by (simp add: created_world_def Mapping.lookup_update)
  then show ?thesis unfolding name_stored_def by blast
qed

lemma service_run_Cons: "service_run orbit w (c # cs) = service_run orbit (service_step orbit w c) cs"
  by (simp add: service_run_def)

lemma service_run_Nil: "service_run orbit w [] = w"
  by (simp add: service_run_def)

lemma service_inv_step: "service_inv w \<Longrightarrow> service_inv (service_step orbit w c)"
  using service_step_cases [of orbit w c] by (auto intro: service_inv_created)

lemma name_stored_step:
  "service_inv w \<Longrightarrow> name_stored w n \<Longrightarrow> name_stored (service_step orbit w c) n"
  using service_step_cases [of orbit w c] by (auto intro: name_stored_created_old)

lemma service_run_keeps:
  "service_inv w \<Longrightarrow> name_stored w n \<Longrightarrow>
   service_inv (service_run orbit w cs) \<and> name_stored (service_run orbit w cs) n"
proof (induction cs arbitrary: w)
  case Nil
  then show ?case by (simp add: service_run_Nil)
next
  case (Cons c cs)
  then show ?case
    by (simp add: service_run_Cons service_inv_step name_stored_step)
qed

lemma service_inv_run: "service_inv w \<Longrightarrow> service_inv (service_run orbit w cs)"
proof (induction cs arbitrary: w)
  case Nil
  then show ?case by (simp add: service_run_Nil)
next
  case (Cons c cs)
  then show ?case by (simp add: service_run_Cons service_inv_step)
qed

lemma service_inv_init: "service_inv \<lparr>heap = h0, repo = NewModuleRepository\<rparr>"
  by (simp add: service_inv_def NewModuleRepository_def Mapping.lookup_empty)

lemma IsModuleNameExists_stored:
  assumes inv: "service_inv w" and st: "name_stored w n" and ef: "EqualFold orbit n name"
  shows "IsModuleNameExists orbit w name 0 = Inr True"
proof -
  from st obtain k m where l: "Mapping.lookup (data (repo w)) k = Some m"
    and n: "Name (heap w ! m) = n" by (auto simp: name_stored_def)
  from inv l have "1 \<le> k" unfolding service_inv_def by blast
  then have "k \<noteq> 0" by simp
  moreover from l have "k \<in> Mapping.keys (data (repo w))"
    by (auto simp: Mapping.keys_dom_lookup)
  ultimately show ?thesis
    using l n ef unfolding IsModuleNameExists_def by force
qed

lemma fold_equal_name_refused:
  assumes w: "w = service_run orbit \<lparr>heap = h0, repo = NewModuleRepository\<rparr> before"
    and first: "service_CreateModule orbit w now1 dto1 = (w1, Inr resp1)"
    and w2: "w2 = service_run orbit w1 between"
    and ef: "EqualFold orbit (reqName dto1) (reqName dto2)"
    and ne: "TrimSpace (reqName dto2) \<noteq> []"
    and len: "3 \<le> length (reqName dto2)" "length (reqName dto2) \<le> 50"
  shows "service_CreateModule orbit w2 now2 dto2 = (w2, Inl ErrNameExists)"
proof -
  have inv: "service_inv w" unfolding w using service_inv_init by (rule service_inv_run)
  from first have w1: "w1 = created_world w now1 dto1"
    by (auto simp: service_CreateModule_cases split: if_splits)
  have inv1: "service_inv w1" unfolding w1 using inv by (rule service_inv_created)
  have st1: "name_stored w1 (reqName dto1)" unfolding w1 by (rule name_stored_created_new)
  from service_run_keeps [OF inv1 st1, of orbit between]
  have inv2: "service_inv w2" and st2: "name_stored w2 (reqName dto1)"
    by (simp_all add: w2)
  have "IsModuleNameExists orbit w2 (reqName dto2) 0 = Inr True"
    using inv2 st2 ef by (rule IsModuleNameExists_stored)
  with ne len show ?thesis by (simp add: service_CreateModule_cases)
qed

lemma case_variant_refused:
  assumes w: "w = service_run orbit \<lparr>heap = h0, repo = NewModuleRepository\<rparr> before"
    and first: "service_CreateModule orbit w now1 dto1 = (w1, Inr resp1)"
    and w2: "w2 = service_run orbit w1 between"
    and cv: "differ_only_in_case (reqName dto1) (reqName dto2)"
  shows "service_CreateModule orbit w2 now2 dto2 = (w2, Inl ErrNameExists)"
proof -
  from first have ok1: "TrimSpace (reqName dto1) \<noteq> []"
    "3 \<le> length (reqName dto1)" "length (reqName dto1) \<le> 50"
    by (auto simp: service_CreateModule_cases split: if_splits)
  have ef: "EqualFold orbit (reqName dto1) (reqName dto2)"
    using cv unfolding differ_only_in_case_def by (rule EqualFold_differ)
  have len: "length (reqName dto1) = length (reqName dto2)"
    using cv unfolding differ_only_in_case_def by (rule map_eq_imp_length_eq)
  have ne: "TrimSpace (reqName dto2) \<noteq> []"
    using cv ok1(1) by (rule TrimSpace_differ)
  from w first w2 ef ne show ?thesis
    by (rule fold_equal_name_refused) (use ok1 len in simp_all)
qed

lemma description_rule_single_byte:
  assumes "TrimSpace (reqName dto) \<noteq> []" and "3 \<le> length (reqName dto)"
    and "length (reqName dto) \<le> 50"
    and "IsModuleNameExists orbit w (reqName dto) 0 = Inr False"
    and "RuneCount (reqDescription dto) = length (reqDescription dto)"
  shows "service_CreateModule orbit w now dto =
     (if 200 < RuneCount (reqDescription dto) then (w, Inl ErrDescriptionLength)
      else (created_world w now dto,
            Inr \<lparr>respID = autoIncrementID (repo w), respName = reqName dto,
                 respDescription = reqDescription dto, respIsActive = reqIsActive dto,
                 respCreatedAt = now\<rparr>))"
  using assms unfolding service_CreateModule_cases by simp

section \<open>Lemmas on the translation of errors\<close>

lemma errors_Is_root:
  "target \<in> {ErrNameRequired, ErrNameLength, ErrNameExists, ErrDescriptionLength, ErrNotFound}
     \<Longrightarrow> errors_Is err target = (root_cause err = target)"
  by (induction err) auto

lemma handleServiceError_sent:
  "handleServiceError err mapper ts =
     ResponseMapper_Error mapper ts (snd (spec_error_table (root_cause err)))
       (StatusToMessage (fst (spec_error_table (root_cause err))))
       (if fst (spec_error_table (root_cause err)) = 400 then Some [''name'' \<mapsto> [Error_text err]] else None)
       (fst (spec_error_table (root_cause err)))"
  unfolding handleServiceError_def
  by (cases "root_cause err") (simp_all add: errors_Is_root spec_error_table_def)

lemma service_CreateModule_errors:
  "snd (service_CreateModule orbit w now dto) = Inl e \<Longrightarrow>
   e \<in> {ErrNameRequired, ErrNameLength, ErrNameExists, ErrDescriptionLength}"
  by (auto simp: service_CreateModule_cases split: if_splits)

lemma service_GetModuleById_errors:
  "service_GetModuleById w id_str = Inl e \<Longrightarrow> e \<in> {ErrNotFound, ErrorsNew ''invalid ID format''}"
  by (auto simp: service_GetModuleById_def repo_GetModuleById_def split: option.splits)

section \<open>The length rule for names (C1)\<close>

text \<open>
  C1, as amended. For every creation request whose name is non-empty after trimming white
  space, the length that \<^verbatim>\<open>CreateModule\<close> tests is that of the name as it was given, not
  trimmed. For a name in which every character takes one byte, \<^verbatim>\<open>CreateModule\<close> returns
  \<^verbatim>\<open>ErrNameLength\<close> if and only if the number of characters of the name as given is outside
  3..50: such a name of 3 or of 50 characters passes this check and one of 2 or of 51
  characters does not, whatever its trimmed length is. A name of more than 50 characters is
  refused with \<^verbatim>\<open>ErrNameLength\<close> whatever its bytes are. Nothing is said here about shorter
  names with characters of several bytes.
\<close>

theorem name_length_rule:
  assumes "TrimSpace (reqName dto) \<noteq> []"
  shows "(RuneCount (reqName dto) = length (reqName dto) \<longrightarrow>
            (snd (service_CreateModule orbit w now dto) = Inl ErrNameLength
               \<longleftrightarrow> RuneCount (reqName dto) < 3 \<or> 50 < RuneCount (reqName dto)))
       \<and> (50 < RuneCount (reqName dto) \<longrightarrow>
            snd (service_CreateModule orbit w now dto) = Inl ErrNameLength)"
proof -
  have "RuneCount (reqName dto) \<le> length (reqName dto)" by (rule RuneCount_le)
  with assms show ?thesis unfolding service_CreateModule_cases by auto
qed

text \<open>
  The rule at its four boundaries, on an empty repository: names of 2 and of 51 letters are
  refused, names of 3 and of 50 letters are not. The name of 50 letters has blanks around
  it, which are counted: its trimmed length is 48.
\<close>

theorem name_length_rule_witness:
  "TrimSpace ''In'' \<noteq> [] \<and> RuneCount ''In'' = 2
   \<and> snd (service_CreateModule (\<lambda>_ _. False) \<lparr>heap = [], repo = NewModuleRepository\<rparr> 0
            \<lparr>reqName = ''In'', reqDescription = [], reqIsActive = False\<rparr>) = Inl ErrNameLength
   \<and> TrimSpace ''Inv'' \<noteq> [] \<and> RuneCount ''Inv'' = 3
   \<and> snd (service_CreateModule (\<lambda>_ _. False) \<lparr>heap = [], repo = NewModuleRepository\<rparr> 0
            \<lparr>reqName = ''Inv'', reqDescription = [], reqIsActive = False\<rparr>) \<noteq> Inl ErrNameLength
   \<and> TrimSpace (CHR '' '' # replicate 48 CHR ''x'' @ '' '') = replicate 48 CHR ''x''
   \<and> RuneCount (CHR '' '' # replicate 48 CHR ''x'' @ '' '') = 50
   \<and> snd (service_CreateModule (\<lambda>_ _. False) \<lparr>heap = [], repo = NewModuleRepository\<rparr> 0
            \<lparr>reqName = CHR '' '' # replicate 48 CHR ''x'' @ '' '', reqDescription = [],
             reqIsActive = False\<rparr>)
        \<noteq> Inl ErrNameLength
   \<and> TrimSpace (replicate 51 CHR ''x'') \<noteq> [] \<and> RuneCount (replicate 51 CHR ''x'') = 51
   \<and> snd (service_CreateModule (\<lambda>_ _. False) \<lparr>heap = [], repo = NewModuleRepository\<rparr> 0
            \<lparr>reqName = replicate 51 CHR ''x'', reqDescription = [], reqIsActive = False\<rparr>)
        = Inl ErrNameLength"
proof -
  let ?nf = "\<lambda>(_::int) (_::int). False"
  let ?w = "\<lparr>heap = [], repo = NewModuleRepository\<rparr>"
  let ?n50 = "CHR '' '' # replicate 48 CHR ''x'' @ '' ''"
  let ?d2 = "\<lparr>reqName = ''In'', reqDescription = [], reqIsActive = False\<rparr>"
  let ?d3 = "\<lparr>reqName = ''Inv'', reqDescription = [], reqIsActive = False\<rparr>"
  let ?d50 = "\<lparr>reqName = ?n50, reqDescription = [], reqIsActive = False\<rparr>"
  let ?d51 = "\<lparr>reqName = replicate 51 CHR ''x'', reqDescription = [], reqIsActive = False\<rparr>"
  have t2: "TrimSpace ''In'' \<noteq> []" by code_simp
  have t3: "TrimSpace ''Inv'' \<noteq> []" by code_simp
  have t50: "TrimSpace ?n50 = replicate 48 CHR ''x''" by code_simp
  have t51: "TrimSpace (replicate 51 CHR ''x'') \<noteq> []" by code_simp
  have c2: "RuneCount ''In'' = 2" by (simp add: RuneCount_ascii byte_def)
  have c3: "RuneCount ''Inv'' = 3" by (simp add: RuneCount_ascii byte_def)
  have c50: "RuneCount ?n50 = 50" by (simp add: RuneCount_ascii byte_def)
  have c51: "RuneCount (replicate 51 CHR ''x'') = 51" by (simp add: RuneCount_ascii byte_def)
  have h2: "TrimSpace (reqName ?d2) \<noteq> []" using t2 by simp
  have h3: "TrimSpace (reqName ?d3) \<noteq> []" using t3 by simp
  have h50: "TrimSpace (reqName ?d50) \<noteq> []" using t50 by simp
  have h51: "TrimSpace (reqName ?d51) \<noteq> []" using t51 by simp
  from name_length_rule [OF h2, of ?nf ?w 0, THEN conjunct1] c2
  have r2: "snd (service_CreateModule ?nf ?w 0 ?d2) = Inl ErrNameLength" by simp
  from name_length_rule [OF h3, of ?nf ?w 0, THEN conjunct1] c3
  have r3: "snd (service_CreateModule ?nf ?w 0 ?d3) \<noteq> Inl ErrNameLength" by simp
  from name_length_rule [OF h50, of ?nf ?w 0, THEN conjunct1] c50
  have r50: "snd (service_CreateModule ?nf ?w 0 ?d50) \<noteq> Inl ErrNameLength" by simp
  from name_length_rule [OF h51, of ?nf ?w 0, THEN conjunct2] c51
  have r51: "snd (service_CreateModule ?nf ?w 0 ?d51) = Inl ErrNameLength" by simp
  from t2 c2 r2 t3 c3 r3 t50 c50 r50 t51 c51 r51 show ?thesis by (intro conjI)
qed

text \<open>
  C1 as the specification words it fails. The name \<open>''  a  ''\<close> has five bytes and trims
  to the single byte \<open>''a''\<close>: its trimmed length is outside 3..50, yet the service does
  not answer \<^verbatim>\<open>ErrNameLength\<close>; it stores the module.
\<close>

theorem name_length_rule_counterexample:
  "TrimSpace ''  a  '' = ''a''
   \<and> length (TrimSpace ''  a  '') < 3
   \<and> snd (service_CreateModule (\<lambda>_ _. False) \<lparr>heap = [], repo = NewModuleRepository\<rparr> 0
            \<lparr>reqName = ''  a  '', reqDescription = [], reqIsActive = False\<rparr>)
       = Inr \<lparr>respID = 1, respName = ''  a  '', respDescription = [], respIsActive = False,
              respCreatedAt = 0\<rparr>
   \<and> \<not> (snd (service_CreateModule (\<lambda>_ _. False) \<lparr>heap = [], repo = NewModuleRepository\<rparr> 0
               \<lparr>reqName = ''  a  '', reqDescription = [], reqIsActive = False\<rparr>)
           = Inl ErrNameLength
          \<longleftrightarrow> length (TrimSpace ''  a  '') < 3 \<or> 50 < length (TrimSpace ''  a  ''))"
proof -
  have t: "TrimSpace ''  a  '' = ''a''" by code_simp
  have r: "snd (service_CreateModule (\<lambda>_ _. False) \<lparr>heap = [], repo = NewModuleRepository\<rparr> 0
            \<lparr>reqName = ''  a  '', reqDescription = [], reqIsActive = False\<rparr>)
       = Inr \<lparr>respID = 1, respName = ''  a  '', respDescription = [], respIsActive = False,
              respCreatedAt = 0\<rparr>"
    by code_simp
  show ?thesis unfolding r t by simp
qed


section \<open>The handler's error table (C2)\<close>

text \<open>
  C2. The status and the code that \<^verbatim>\<open>handleServiceError\<close> sends are those of the
  specification's table, read at the error the given one is or wraps: 400 and
  \<^verbatim>\<open>VALIDATION_ERROR\<close> for the name-required, name-length and description-length errors,
  409 and \<^verbatim>\<open>RESOURCE_CONFLICT\<close> for name-exists, 404 and \<^verbatim>\<open>NOT_FOUND\<close> for not-found, and
  500 and \<^verbatim>\<open>INTERNAL_ERROR\<close> for every other error, a wrapped storage fault included. The
  envelope sent is an error envelope without payload. The errors the service returns over
  the in-memory repository are the business errors themselves, never wrapped, and the
  repository's invalid-identifier error.
\<close>

theorem handleServiceError_table:
  fixes err :: go_error and mapper :: ResponseMapper and ts :: string
  defines "sent \<equiv> (handleServiceError err mapper ts :: 'a APIResponse \<times> int)"
  shows "snd sent = fst (spec_error_table (root_cause err))
       \<and> map_option Code (Error (fst sent)) = Some (snd (spec_error_table (root_cause err)))
       \<and> Success (fst sent) = False \<and> Data (fst sent) = None
       \<and> (\<forall>orbit w now dto e. snd (service_CreateModule orbit w now dto) = Inl e \<longrightarrow>
              root_cause e = e
              \<and> e \<in> {ErrNameRequired, ErrNameLength, ErrNameExists, ErrDescriptionLength})
       \<and> (\<forall>w id_str e. service_GetModuleById w id_str = Inl e \<longrightarrow>
              root_cause e = e \<and> e \<in> {ErrNotFound, ErrorsNew ''invalid ID format''})"
proof -
  have 1: "snd sent = fst (spec_error_table (root_cause err))
       \<and> map_option Code (Error (fst sent)) = Some (snd (spec_error_table (root_cause err)))
       \<and> Success (fst sent) = False \<and> Data (fst sent) = None"
    unfolding sent_def handleServiceError_sent by (simp add: ResponseMapper_Error_def)
  have 2: "root_cause e = e \<and> e \<in> {ErrNameRequired, ErrNameLength, ErrNameExists, ErrDescriptionLength}"
    if "snd (service_CreateModule orbit w now dto) = Inl e" for orbit w now dto e
    using service_CreateModule_errors [OF that] by auto
  have 3: "root_cause e = e \<and> e \<in> {ErrNotFound, ErrorsNew ''invalid ID format''}"
    if "service_GetModuleById w id_str = Inl e" for w id_str e
    using service_GetModuleById_errors [OF that] by auto
  from 1 2 3 show ?thesis by blast
qed


text \<open>
  The table at a wrapped storage fault, at name-exists, at not-found and at name-length.
\<close>

theorem handleServiceError_table_witness:
  "snd (handleServiceError (Errorf_w ''database error checking name: '' (ErrorsNew ''connection refused''))
          (NewResponseMapper ''req-1'') ''2024-01-01T00:00:00Z'' :: unit APIResponse \<times> int) = 500
   \<and> map_option Code (Error (fst (handleServiceError
          (Errorf_w ''database error checking name: '' (ErrorsNew ''connection refused''))
          (NewResponseMapper ''req-1'') ''2024-01-01T00:00:00Z'' :: unit APIResponse \<times> int)))
       = Some ''INTERNAL_ERROR''
   \<and> snd (handleServiceError ErrNameExists (NewResponseMapper ''req-1'') ''2024-01-01T00:00:00Z''
            :: unit APIResponse \<times> int) = 409
   \<and> snd (handleServiceError ErrNotFound (NewResponseMapper ''req-1'') ''2024-01-01T00:00:00Z''
            :: unit APIResponse \<times> int) = 404
   \<and> snd (handleServiceError ErrNameLength (NewResponseMapper ''req-1'') ''2024-01-01T00:00:00Z''
            :: unit APIResponse \<times> int) = 400"
  using handleServiceError_table
      [where 'a = unit, of "Errorf_w ''database error checking name: '' (ErrorsNew ''connection refused'')"
        "NewResponseMapper ''req-1''" "''2024-01-01T00:00:00Z''"]
    handleServiceError_table [where 'a = unit, of ErrNameExists "NewResponseMapper ''req-1''" "''2024-01-01T00:00:00Z''"]
    handleServiceError_table [where 'a = unit, of ErrNotFound "NewResponseMapper ''req-1''" "''2024-01-01T00:00:00Z''"]
    handleServiceError_table [where 'a = unit, of ErrNameLength "NewResponseMapper ''req-1''" "''2024-01-01T00:00:00Z''"]
  by (simp add: spec_error_table_def)


section \<open>Names that are equal up to letter case (C3)\<close>

text \<open>
  C3 does not hold of the code. A name of seventeen letters \<^verbatim>\<open>k\<close> is stored. The name made
  of seventeen Kelvin signs (U+212A, three bytes each in UTF-8) has seventeen characters
  too and is equal to the stored one when case is ignored, as \<^verbatim>\<open>strings.EqualFold\<close> finds. A
  second creation with it must be refused with \<^verbatim>\<open>ErrNameExists\<close>. The service refuses it
  with \<^verbatim>\<open>ErrNameLength\<close> instead: its length check, which comes before the lookup, counts
  the 51 bytes of the name with \<^verbatim>\<open>len\<close> where its own message speaks of 3-50 characters.
\<close>

theorem kelvin_name_gets_ErrNameLength:
  "RuneCount (replicate 17 CHR ''k'') = 17
   \<and> RuneCount (concat (replicate 17 [CHR 0xE2, CHR 0x84, CHR 0xAA])) = 17
   \<and> length (concat (replicate 17 [CHR 0xE2, CHR 0x84, CHR 0xAA])) = 51
   \<and> EqualFold (\<lambda>_ _. False) (replicate 17 CHR ''k'')
       (concat (replicate 17 [CHR 0xE2, CHR 0x84, CHR 0xAA]))
   \<and> snd (service_CreateModule (\<lambda>_ _. False) \<lparr>heap = [], repo = NewModuleRepository\<rparr> 1
            \<lparr>reqName = replicate 17 CHR ''k'', reqDescription = [], reqIsActive = True\<rparr>)
       = Inr \<lparr>respID = 1, respName = replicate 17 CHR ''k'', respDescription = [],
              respIsActive = True, respCreatedAt = 1\<rparr>
   \<and> snd (service_CreateModule (\<lambda>_ _. False)
            (fst (service_CreateModule (\<lambda>_ _. False) \<lparr>heap = [], repo = NewModuleRepository\<rparr> 1
                   \<lparr>reqName = replicate 17 CHR ''k'', reqDescription = [], reqIsActive = True\<rparr>))
            2 \<lparr>reqName = concat (replicate 17 [CHR 0xE2, CHR 0x84, CHR 0xAA]),
               reqDescription = [], reqIsActive = True\<rparr>)
       = Inl ErrNameLength"
proof -
  have k: "RuneCount (replicate 17 CHR ''k'') = 17"
    by (simp add: RuneCount_ascii byte_def)
  have c: "RuneCount (concat (replicate 17 [CHR 0xE2, CHR 0x84, CHR 0xAA])) = 17"
    by (rule RuneCount_kelvin)
  have l: "length (concat (replicate 17 [CHR 0xE2, CHR 0x84, CHR 0xAA])) = 51"
    by (simp add: length_concat_replicate)
  have 1: "EqualFold (\<lambda>_ _. False) (replicate 17 CHR ''k'')
       (concat (replicate 17 [CHR 0xE2, CHR 0x84, CHR 0xAA]))"
    by (rule EqualFold_kelvin)
  have 2: "snd (service_CreateModule (\<lambda>_ _. False) \<lparr>heap = [], repo = NewModuleRepository\<rparr> 1
            \<lparr>reqName = replicate 17 CHR ''k'', reqDescription = [], reqIsActive = True\<rparr>)
       = Inr \<lparr>respID = 1, respName = replicate 17 CHR ''k'', respDescription = [],
              respIsActive = True, respCreatedAt = 1\<rparr>"
    by code_simp
  have t: "TrimSpace (concat (replicate 17 [CHR 0xE2, CHR 0x84, CHR 0xAA])) \<noteq> []"
    by code_simp
  have 3: "snd (service_CreateModule (\<lambda>_ _. False)
            (fst (service_CreateModule (\<lambda>_ _. False) \<lparr>heap = [], repo = NewModuleRepository\<rparr> 1
                   \<lparr>reqName = replicate 17 CHR ''k'', reqDescription = [], reqIsActive = True\<rparr>))
            2 \<lparr>reqName = concat (replicate 17 [CHR 0xE2, CHR 0x84, CHR 0xAA]),
               reqDescription = [], reqIsActive = True\<rparr>)
       = Inl ErrNameLength"
    using t l by (simp add: service_CreateModule_cases [where now = 2])
  from k c l 1 2 3 show ?thesis by (intro conjI)
qed

section \<open>Looking a module up (C4)\<close>

text \<open>
  C4. The repository's \<^verbatim>\<open>GetModuleById\<close> has three outcomes. An identifier that
  \<^verbatim>\<open>strconv.Atoi\<close> refuses gives an error of its own, which is not \<^verbatim>\<open>ErrNotFound\<close>; an
  identifier that parses and has no stored record gives absent with no error; one that has a
  record gives the record. The service passes a repository error on unchanged, turns
  absent into \<^verbatim>\<open>ErrNotFound\<close>, and maps a record to its response.
\<close>

theorem GetModuleById_outcomes:
  "(Atoi id_str = None \<longrightarrow>
      repo_GetModuleById w id_str = Inl (ErrorsNew ''invalid ID format'')
      \<and> \<not> errors_Is (ErrorsNew ''invalid ID format'') ErrNotFound)
   \<and> (\<forall>k. Atoi id_str = Some k \<and> Mapping.lookup (data (repo w)) k = None \<longrightarrow>
         repo_GetModuleById w id_str = Inr None)
   \<and> (\<forall>k entity. Atoi id_str = Some k \<and> Mapping.lookup (data (repo w)) k = Some entity \<longrightarrow>
         repo_GetModuleById w id_str = Inr (Some entity))
   \<and> (repo_GetModuleById w id_str = Inr None \<longrightarrow> service_GetModuleById w id_str = Inl ErrNotFound)
   \<and> (\<forall>err. repo_GetModuleById w id_str = Inl err \<longrightarrow> service_GetModuleById w id_str = Inl err)
   \<and> (\<forall>entity. repo_GetModuleById w id_str = Inr (Some entity) \<longrightarrow>
         service_GetModuleById w id_str = Inr (toResponse (heap w ! entity)))"
  by (auto simp: repo_GetModuleById_def service_GetModuleById_def split: option.splits)

text \<open>
  On a new repository \<open>''abc''\<close> is a malformed identifier and \<open>''7''\<close> a well-formed one
  with no record.
\<close>

theorem GetModuleById_outcomes_witness:
  "Atoi ''abc'' = None
   \<and> repo_GetModuleById \<lparr>heap = [], repo = NewModuleRepository\<rparr> ''abc''
       = Inl (ErrorsNew ''invalid ID format'')
   \<and> service_GetModuleById \<lparr>heap = [], repo = NewModuleRepository\<rparr> ''abc''
       = Inl (ErrorsNew ''invalid ID format'')
   \<and> Atoi ''7'' = Some 7
   \<and> Mapping.lookup (data (repo \<lparr>heap = [], repo = NewModuleRepository\<rparr>)) 7 = None
   \<and> repo_GetModuleById \<lparr>heap = [], repo = NewModuleRepository\<rparr> ''7'' = Inr None
   \<and> service_GetModuleById \<lparr>heap = [], repo = NewModuleRepository\<rparr> ''7'' = Inl ErrNotFound"
proof -
  let ?w = "\<lparr>heap = [], repo = NewModuleRepository\<rparr>"
  have a: "Atoi ''abc'' = None" by code_simp
  have b: "Atoi ''7'' = Some 7" by code_simp
  have c: "Mapping.lookup (data (repo ?w)) 7 = None"
    by (simp add: NewModuleRepository_def Mapping.lookup_empty)
  from GetModuleById_outcomes [of "''abc''" ?w] GetModuleById_outcomes [of "''7''" ?w] a b c
  show ?thesis by simp
qed


section \<open>The order of validation (C5)\<close>

text \<open>
  C5. \<^verbatim>\<open>CreateModule\<close> checks, in this order, that the trimmed name is non-empty, that
  the length of the name is within 3..50, that no stored name matches, and that the
  description has at most 200 bytes. It returns the error of the first rule that fails,
  whatever the later rules would say, and a response only when all four hold; the result
  is one error or one response, never several errors.
\<close>

theorem CreateModule_validation_order:
  fixes dto :: ModuleRequest and orbit :: "int \<Rightarrow> int \<Rightarrow> bool" and w :: world and now :: instant
  defines "nm \<equiv> reqName dto" and "r \<equiv> snd (service_CreateModule orbit w now dto)"
  shows "(TrimSpace nm = [] \<longrightarrow> r = Inl ErrNameRequired)
       \<and> (TrimSpace nm \<noteq> [] \<and> (length nm < 3 \<or> 50 < length nm) \<longrightarrow> r = Inl ErrNameLength)
       \<and> (TrimSpace nm \<noteq> [] \<and> 3 \<le> length nm \<and> length nm \<le> 50
            \<and> IsModuleNameExists orbit w nm 0 = Inr True \<longrightarrow> r = Inl ErrNameExists)
       \<and> (TrimSpace nm \<noteq> [] \<and> 3 \<le> length nm \<and> length nm \<le> 50
            \<and> IsModuleNameExists orbit w nm 0 = Inr False \<and> 200 < length (reqDescription dto)
            \<longrightarrow> r = Inl ErrDescriptionLength)
       \<and> (TrimSpace nm \<noteq> [] \<and> 3 \<le> length nm \<and> length nm \<le> 50
            \<and> IsModuleNameExists orbit w nm 0 = Inr False \<and> length (reqDescription dto) \<le> 200
            \<longrightarrow> (\<exists>resp. r = Inr resp))"
  unfolding nm_def r_def service_CreateModule_cases by auto

text \<open>
  With \<open>''Inventory''\<close> stored, a request named \<open>''inventory''\<close> whose description has 201
  bytes breaks two rules and gets the earlier error, \<^verbatim>\<open>ErrNameExists\<close>; a request with a
  blank name of one byte breaks the first two rules and gets \<^verbatim>\<open>ErrNameRequired\<close>.
\<close>

theorem CreateModule_validation_order_witness:
  "TrimSpace ''inventory'' \<noteq> []
   \<and> IsModuleNameExists (\<lambda>_ _. False)
        (fst (service_CreateModule (\<lambda>_ _. False) \<lparr>heap = [], repo = NewModuleRepository\<rparr> 1
               \<lparr>reqName = ''Inventory'', reqDescription = ''Stock'', reqIsActive = True\<rparr>))
        ''inventory'' 0 = Inr True
   \<and> 200 < length (replicate 201 CHR ''x'')
   \<and> snd (service_CreateModule (\<lambda>_ _. False)
            (fst (service_CreateModule (\<lambda>_ _. False) \<lparr>heap = [], repo = NewModuleRepository\<rparr> 1
                   \<lparr>reqName = ''Inventory'', reqDescription = ''Stock'', reqIsActive = True\<rparr>))
            2 \<lparr>reqName = ''inventory'', reqDescription = replicate 201 CHR ''x'',
               reqIsActive = False\<rparr>)
       = Inl ErrNameExists
   \<and> TrimSpace '' '' = []
   \<and> snd (service_CreateModule (\<lambda>_ _. False) \<lparr>heap = [], repo = NewModuleRepository\<rparr> 1
            \<lparr>reqName = '' '', reqDescription = [], reqIsActive = False\<rparr>)
       = Inl ErrNameRequired"
proof -
  let ?nf = "\<lambda>(_::int) (_::int). False"
  let ?w1 = "fst (service_CreateModule ?nf \<lparr>heap = [], repo = NewModuleRepository\<rparr> 1
               \<lparr>reqName = ''Inventory'', reqDescription = ''Stock'', reqIsActive = True\<rparr>)"
  have a: "TrimSpace ''inventory'' \<noteq> []" by code_simp
  have b: "IsModuleNameExists ?nf ?w1 ''inventory'' 0 = Inr True" by code_simp
  have c: "TrimSpace '' '' = []" by code_simp
  from CreateModule_validation_order
      [of "\<lparr>reqName = ''inventory'', reqDescription = replicate 201 CHR ''x'', reqIsActive = False\<rparr>"
        ?nf ?w1 2]
    CreateModule_validation_order
      [of "\<lparr>reqName = '' '', reqDescription = [], reqIsActive = False\<rparr>"
        ?nf "\<lparr>heap = [], repo = NewModuleRepository\<rparr>" 1]
    a b c
  show ?thesis by simp
qed

section \<open>The length rule for descriptions (C6)\<close>

text \<open>
  C6 does not hold of the code. On a new repository the name \<open>''Inventory''\<close> passes the
  three name checks. A description made of 200 letters \<^verbatim>\<open>e\<close> with an acute accent (U+00E9,
  two bytes each in UTF-8) has exactly 200 characters and must be accepted. The service
  refuses it with \<^verbatim>\<open>ErrDescriptionLength\<close> and stores nothing: its check counts the 400 bytes
  of the description with \<^verbatim>\<open>len\<close> where its own message speaks of 200 characters.
\<close>

theorem description_of_200_characters_refused:
  "RuneCount (concat (replicate 200 [CHR 0xC3, CHR 0xA9])) = 200
   \<and> length (concat (replicate 200 [CHR 0xC3, CHR 0xA9])) = 400
   \<and> TrimSpace ''Inventory'' \<noteq> []
   \<and> RuneCount ''Inventory'' = 9
   \<and> IsModuleNameExists (\<lambda>_ _. False) \<lparr>heap = [], repo = NewModuleRepository\<rparr> ''Inventory'' 0
       = Inr False
   \<and> service_CreateModule (\<lambda>_ _. False) \<lparr>heap = [], repo = NewModuleRepository\<rparr> 1
        \<lparr>reqName = ''Inventory'', reqDescription = concat (replicate 200 [CHR 0xC3, CHR 0xA9]),
         reqIsActive = True\<rparr>
       = (\<lparr>heap = [], repo = NewModuleRepository\<rparr>, Inl ErrDescriptionLength)"
proof -
  let ?nf = "\<lambda>(_::int) (_::int). False"
  let ?w = "\<lparr>heap = [], repo = NewModuleRepository\<rparr>"
  have c: "RuneCount (concat (replicate 200 [CHR 0xC3, CHR 0xA9])) = 200"
    by (rule RuneCount_e_acute)
  have l: "length (concat (replicate 200 [CHR 0xC3, CHR 0xA9])) = 400"
    by (simp add: length_concat_replicate)
  have t: "TrimSpace ''Inventory'' \<noteq> []" by code_simp
  have n: "RuneCount ''Inventory'' = 9" by (simp add: RuneCount_ascii byte_def)
  have e: "IsModuleNameExists ?nf ?w ''Inventory'' 0 = Inr False" by code_simp
  have r: "service_CreateModule ?nf ?w 1
        \<lparr>reqName = ''Inventory'', reqDescription = concat (replicate 200 [CHR 0xC3, CHR 0xA9]),
         reqIsActive = True\<rparr>
       = (?w, Inl ErrDescriptionLength)"
    unfolding service_CreateModule_cases using t e l by simp
  from c l t n e r show ?thesis by (intro conjI)
qed

section \<open>The envelope constructors (C7)\<close>

text \<open>
  C7, as amended. No envelope built by a constructor has both a payload and an error.
  \<^verbatim>\<open>ResponseMapper.Success\<close> and \<^verbatim>\<open>NewSuccessResponse\<close> set the success flag, leave the
  error absent and store the payload they are given as it is, so the payload is present
  exactly when the argument is not \<^verbatim>\<open>nil\<close>. \<^verbatim>\<open>ResponseMapper.Error\<close> and
  \<^verbatim>\<open>NewErrorResponse\<close> clear the flag, leave the payload absent and always store an error.
\<close>

theorem envelope_constructors:
  "Success (fst (ResponseMapper_Success m ts data_arg message statusCode)) = True
   \<and> Data (fst (ResponseMapper_Success m ts data_arg message statusCode)) = data_arg
   \<and> Error (fst (ResponseMapper_Success m ts data_arg message statusCode)) = None
   \<and> snd (ResponseMapper_Success m ts data_arg message statusCode) = statusCode
   \<and> Success (fst (ResponseMapper_Error m ts code message details statusCode
        :: 'a APIResponse \<times> int)) = False
   \<and> Data (fst (ResponseMapper_Error m ts code message details statusCode
        :: 'a APIResponse \<times> int)) = None
   \<and> Error (fst (ResponseMapper_Error m ts code message details statusCode
        :: 'a APIResponse \<times> int))
       = Some \<lparr>Code = code, ErrMessage = message, Details = details\<rparr>
   \<and> snd (ResponseMapper_Error m ts code message details statusCode
        :: 'a APIResponse \<times> int) = statusCode
   \<and> Success (NewSuccessResponse ts data_arg message rid) = True
   \<and> Data (NewSuccessResponse ts data_arg message rid) = data_arg
   \<and> Error (NewSuccessResponse ts data_arg message rid) = None
   \<and> Success (NewErrorResponse ts code message details rid :: 'a APIResponse) = False
   \<and> Data (NewErrorResponse ts code message details rid :: 'a APIResponse) = None
   \<and> Error (NewErrorResponse ts code message details rid :: 'a APIResponse)
       = Some \<lparr>Code = code, ErrMessage = message, Details = details\<rparr>"
  by (simp add: ResponseMapper_Success_def ResponseMapper_Error_def NewSuccessResponse_def
      NewErrorResponse_def)

text \<open>A success envelope around a module response, and an error envelope.\<close>

theorem envelope_constructors_witness:
  "Data (fst (ResponseMapper_Success (NewResponseMapper ''req-1'') ''2024-01-01T00:00:00Z''
           (Some \<lparr>respID = 1, respName = ''Inventory'', respDescription = [],
                   respIsActive = True, respCreatedAt = 0\<rparr>)
           ''Resource created successfully'' 201))
     = Some \<lparr>respID = 1, respName = ''Inventory'', respDescription = [],
              respIsActive = True, respCreatedAt = 0\<rparr>
   \<and> Error (fst (ResponseMapper_Success (NewResponseMapper ''req-1'') ''2024-01-01T00:00:00Z''
           (Some \<lparr>respID = 1, respName = ''Inventory'', respDescription = [],
                   respIsActive = True, respCreatedAt = 0\<rparr>)
           ''Resource created successfully'' 201)) = None
   \<and> Data (fst (ResponseMapper_Error (NewResponseMapper ''req-1'') ''2024-01-01T00:00:00Z''
           ''NOT_FOUND'' ''Resource not found'' None 404 :: ModuleResponse APIResponse \<times> int))
       = None
   \<and> Error (fst (ResponseMapper_Error (NewResponseMapper ''req-1'') ''2024-01-01T00:00:00Z''
           ''NOT_FOUND'' ''Resource not found'' None 404 :: ModuleResponse APIResponse \<times> int))
       = Some \<lparr>Code = ''NOT_FOUND'', ErrMessage = ''Resource not found'', Details = None\<rparr>"
proof -
  note success = envelope_constructors
      [where 'a = ModuleResponse, of "NewResponseMapper ''req-1''" "''2024-01-01T00:00:00Z''"
        "Some \<lparr>respID = 1, respName = ''Inventory'', respDescription = [],
                respIsActive = True, respCreatedAt = 0\<rparr>"
        "''Resource created successfully''" 201 "''NOT_FOUND''" None "''req-1''"]
  note failure = envelope_constructors
      [where 'a = ModuleResponse, of "NewResponseMapper ''req-1''" "''2024-01-01T00:00:00Z''"
        None "''Resource not found''" 404 "''NOT_FOUND''" None "''req-1''"]
  from success have 1: "Data (fst (ResponseMapper_Success (NewResponseMapper ''req-1'')
           ''2024-01-01T00:00:00Z''
           (Some \<lparr>respID = 1, respName = ''Inventory'', respDescription = [],
                   respIsActive = True, respCreatedAt = 0\<rparr>)
           ''Resource created successfully'' 201))
     = Some \<lparr>respID = 1, respName = ''Inventory'', respDescription = [],
              respIsActive = True, respCreatedAt = 0\<rparr>"
    by (elim conjE)
  from success have 2: "Error (fst (ResponseMapper_Success (NewResponseMapper ''req-1'')
           ''2024-01-01T00:00:00Z''
           (Some \<lparr>respID = 1, respName = ''Inventory'', respDescription = [],
                   respIsActive = True, respCreatedAt = 0\<rparr>)
           ''Resource created successfully'' 201)) = None"
    by (elim conjE)
  from failure have 3: "Data (fst (ResponseMapper_Error (NewResponseMapper ''req-1'')
           ''2024-01-01T00:00:00Z'' ''NOT_FOUND'' ''Resource not found'' None 404
           :: ModuleResponse APIResponse \<times> int)) = None"
    by (elim conjE)
  from failure have 4: "Error (fst (ResponseMapper_Error (NewResponseMapper ''req-1'')
           ''2024-01-01T00:00:00Z'' ''NOT_FOUND'' ''Resource not found'' None 404
           :: ModuleResponse APIResponse \<times> int))
       = Some \<lparr>Code = ''NOT_FOUND'', ErrMessage = ''Resource not found'', Details = None\<rparr>"
    by (elim conjE)
  from 1 2 3 4 show ?thesis by (intro conjI)
qed

text \<open>
  C7 as the specification words it fails: \<^verbatim>\<open>Success\<close> accepts a \<^verbatim>\<open>nil\<close> payload and then
  builds an envelope that has neither a payload nor an error.
\<close>

theorem envelope_constructors_counterexample:
  "Success (fst (ResponseMapper_Success (NewResponseMapper ''req-1'') ''2024-01-01T00:00:00Z''
      (None :: ModuleResponse option) ''Operation completed successfully'' 200)) = True
   \<and> Data (fst (ResponseMapper_Success (NewResponseMapper ''req-1'') ''2024-01-01T00:00:00Z''
      (None :: ModuleResponse option) ''Operation completed successfully'' 200)) = None
   \<and> Error (fst (ResponseMapper_Success (NewResponseMapper ''req-1'') ''2024-01-01T00:00:00Z''
      (None :: ModuleResponse option) ''Operation completed successfully'' 200)) = None"
  by (simp add: ResponseMapper_Success_def)

section \<open>What the exception middleware sends (C8)\<close>





section \<open>Identifiers in the repository (C9)\<close>

text \<open>
  C9, as amended. Take any state reached from a new repository by calls of
  \<^verbatim>\<open>CreateModule\<close>, \<^verbatim>\<open>IsModuleNameExists\<close> and \<^verbatim>\<open>GetModuleById\<close> on modules of the heap. Every
  key and the identifier of every stored module are at least 1 and below the counter. The
  calls of \<^verbatim>\<open>CreateModule\<close> assign the identifiers 1, 2, 3 and so on in order, so each one
  is positive, larger than all assigned before and distinct from them, and the counter
  is one more than the number of those calls. When no module is passed to \<^verbatim>\<open>CreateModule\<close>
  twice, every key is the identifier of the module stored under it; this is so in every
  state the service reaches, since the service allocates a new module for each call.
\<close>

theorem repository_identifier_invariant:
  fixes h0 :: "Module list" and cs :: "repo_call list"
  defines "w0 \<equiv> \<lparr>heap = h0, repo = NewModuleRepository\<rparr>"
  defines "w \<equiv> repo_run w0 cs"
  assumes valid: "\<forall>m \<in> set (create_args cs). m < length h0"
  shows "(\<forall>k m. Mapping.lookup (data (repo w)) k = Some m \<longrightarrow>
            1 \<le> k \<and> k < autoIncrementID (repo w)
            \<and> 1 \<le> ID (heap w ! m) \<and> ID (heap w ! m) < autoIncrementID (repo w))
       \<and> (distinct (create_args cs) \<longrightarrow>
            (\<forall>k m. Mapping.lookup (data (repo w)) k = Some m \<longrightarrow> ID (heap w ! m) = k))
       \<and> (\<forall>orbit calls k m.
            Mapping.lookup (data (repo (service_run orbit w0 calls))) k = Some m \<longrightarrow>
            ID (heap (service_run orbit w0 calls) ! m) = k)
       \<and> assigned_ids w0 cs = [1 .. int (length (create_args cs))]
       \<and> sorted_wrt (<) (assigned_ids w0 cs)
       \<and> distinct (assigned_ids w0 cs)
       \<and> autoIncrementID (repo w) = 1 + int (length (create_args cs))"
proof -
  have v: "\<forall>m \<in> set (create_args cs). m < length (heap w0)"
    using valid by (simp add: w0_def)
  have a0: "autoIncrementID (repo w0) = 1"
    by (simp add: w0_def NewModuleRepository_def)
  have "repo_inv w"
    unfolding w_def using repo_inv_init v unfolding w0_def by (rule repo_inv_run)
  then have 1: "\<forall>k m. Mapping.lookup (data (repo w)) k = Some m \<longrightarrow>
            1 \<le> k \<and> k < autoIncrementID (repo w)
            \<and> 1 \<le> ID (heap w ! m) \<and> ID (heap w ! m) < autoIncrementID (repo w)"
    by (simp add: repo_inv_def)
  have 2: "\<forall>k m. Mapping.lookup (data (repo w)) k = Some m \<longrightarrow> ID (heap w ! m) = k"
    if d: "distinct (create_args cs)"
  proof -
    have "key_inv (repo_run w0 cs) ({} \<union> set (create_args cs))"
      using key_inv_init v d unfolding w0_def by (intro key_inv_run) simp_all
    then show ?thesis by (simp add: key_inv_def w_def)
  qed
  have 3: "ID (heap (service_run orbit w0 calls) ! m) = k"
    if "Mapping.lookup (data (repo (service_run orbit w0 calls))) k = Some m"
    for orbit calls k m
  proof -
    have "service_inv (service_run orbit w0 calls)"
      unfolding w0_def using service_inv_init by (rule service_inv_run)
    with that show ?thesis by (simp add: service_inv_def)
  qed
  from assigned_ids_run [OF v] a0
  have 4: "assigned_ids w0 cs = [1 .. int (length (create_args cs))]"
    and 5: "autoIncrementID (repo w) = 1 + int (length (create_args cs))"
    by (simp_all add: w_def)
  have 6: "sorted_wrt (<) (assigned_ids w0 cs)" and 7: "distinct (assigned_ids w0 cs)"
    unfolding 4 by simp_all
  from 1 2 3 4 5 6 7 show ?thesis by blast
qed

text \<open>
  Two modules stored by two calls, with queries in between: the identifiers assigned are 1
  and 2, the counter ends at 3 and the module under key 2 carries the identifier 2.
\<close>

theorem repository_identifier_invariant_witness:
  "create_args [CallCreateModule (Some 0), CallGetModuleById ''1'', CallCreateModule (Some 1),
      CallIsModuleNameExists ''billing'' 0] = [0, 1]
   \<and> assigned_ids
        \<lparr>heap = [\<lparr>ID = 0, Name = ''Inventory'', Description = [], IsActive = True, CreatedAt = 1\<rparr>,
                  \<lparr>ID = 0, Name = ''Billing'', Description = [], IsActive = True, CreatedAt = 2\<rparr>],
          repo = NewModuleRepository\<rparr>
        [CallCreateModule (Some 0), CallGetModuleById ''1'', CallCreateModule (Some 1),
         CallIsModuleNameExists ''billing'' 0] = [1, 2]
   \<and> autoIncrementID (repo (repo_run
        \<lparr>heap = [\<lparr>ID = 0, Name = ''Inventory'', Description = [], IsActive = True, CreatedAt = 1\<rparr>,
                  \<lparr>ID = 0, Name = ''Billing'', Description = [], IsActive = True, CreatedAt = 2\<rparr>],
          repo = NewModuleRepository\<rparr>
        [CallCreateModule (Some 0), CallGetModuleById ''1'', CallCreateModule (Some 1),
         CallIsModuleNameExists ''billing'' 0])) = 3
   \<and> Mapping.lookup (data (repo (repo_run
        \<lparr>heap = [\<lparr>ID = 0, Name = ''Inventory'', Description = [], IsActive = True, CreatedAt = 1\<rparr>,
                  \<lparr>ID = 0, Name = ''Billing'', Description = [], IsActive = True, CreatedAt = 2\<rparr>],
          repo = NewModuleRepository\<rparr>
        [CallCreateModule (Some 0), CallGetModuleById ''1'', CallCreateModule (Some 1),
         CallIsModuleNameExists ''billing'' 0]))) 2 = Some 1
   \<and> ID (heap (repo_run
        \<lparr>heap = [\<lparr>ID = 0, Name = ''Inventory'', Description = [], IsActive = True, CreatedAt = 1\<rparr>,
                  \<lparr>ID = 0, Name = ''Billing'', Description = [], IsActive = True, CreatedAt = 2\<rparr>],
          repo = NewModuleRepository\<rparr>
        [CallCreateModule (Some 0), CallGetModuleById ''1'', CallCreateModule (Some 1),
         CallIsModuleNameExists ''billing'' 0]) ! 1) = 2"
proof -
  let ?h = "[\<lparr>ID = 0, Name = ''Inventory'', Description = [], IsActive = True, CreatedAt = 1\<rparr>,
             \<lparr>ID = 0, Name = ''Billing'', Description = [], IsActive = True, CreatedAt = 2\<rparr>]"
  let ?cs = "[CallCreateModule (Some 0), CallGetModuleById ''1'', CallCreateModule (Some 1),
              CallIsModuleNameExists ''billing'' 0]"
  let ?w = "repo_run \<lparr>heap = ?h, repo = NewModuleRepository\<rparr> ?cs"
  have args: "create_args ?cs = [0, 1]" by simp
  then have valid: "\<forall>m \<in> set (create_args ?cs). m < length ?h" by simp
  have dist: "distinct (create_args ?cs)" unfolding args by simp
  have l: "Mapping.lookup (data (repo ?w)) 2 = Some 1" by code_simp
  note inv = repository_identifier_invariant [OF valid]
  from inv have "distinct (create_args ?cs) \<longrightarrow>
      (\<forall>k m. Mapping.lookup (data (repo ?w)) k = Some m \<longrightarrow> ID (heap ?w ! m) = k)"
    by (elim conjE)
  with dist l have 1: "ID (heap ?w ! 1) = 2" by blast
  from inv have "assigned_ids \<lparr>heap = ?h, repo = NewModuleRepository\<rparr> ?cs
      = [1 .. int (length (create_args ?cs))]"
    by (elim conjE)
  then have 2: "assigned_ids \<lparr>heap = ?h, repo = NewModuleRepository\<rparr> ?cs = [1, 2]"
    unfolding args by (simp add: upto_rec1)
  from inv have "autoIncrementID (repo ?w) = 1 + int (length (create_args ?cs))"
    by (elim conjE)
  then have 3: "autoIncrementID (repo ?w) = 3" unfolding args by simp
  from args 2 3 l 1 show ?thesis by (intro conjI)
qed

text \<open>
  C9 as it is worded fails. The repository stores the pointer it is given and writes the
  new identifier through it, so a module passed to \<^verbatim>\<open>CreateModule\<close> twice is stored under
  the keys 1 and 2 and carries the identifier 2: key 1 is not the identifier of the module
  stored under it.
\<close>

theorem repository_identifier_invariant_counterexample:
  "Mapping.lookup (data (repo (repo_run
       \<lparr>heap = [\<lparr>ID = 0, Name = ''Inventory'', Description = [], IsActive = True, CreatedAt = 1\<rparr>],
         repo = NewModuleRepository\<rparr>
       [CallCreateModule (Some 0), CallCreateModule (Some 0)]))) 1 = Some 0
   \<and> ID (heap (repo_run
       \<lparr>heap = [\<lparr>ID = 0, Name = ''Inventory'', Description = [], IsActive = True, CreatedAt = 1\<rparr>],
         repo = NewModuleRepository\<rparr>
       [CallCreateModule (Some 0), CallCreateModule (Some 0)]) ! 0) = 2
   \<and> \<not> (\<forall>k m. Mapping.lookup (data (repo (repo_run
       \<lparr>heap = [\<lparr>ID = 0, Name = ''Inventory'', Description = [], IsActive = True, CreatedAt = 1\<rparr>],
         repo = NewModuleRepository\<rparr>
       [CallCreateModule (Some 0), CallCreateModule (Some 0)]))) k = Some m \<longrightarrow>
         ID (heap (repo_run
       \<lparr>heap = [\<lparr>ID = 0, Name = ''Inventory'', Description = [], IsActive = True, CreatedAt = 1\<rparr>],
         repo = NewModuleRepository\<rparr>
       [CallCreateModule (Some 0), CallCreateModule (Some 0)]) ! m) = k)"
proof -
  let ?w = "repo_run
       \<lparr>heap = [\<lparr>ID = 0, Name = ''Inventory'', Description = [], IsActive = True, CreatedAt = 1\<rparr>],
         repo = NewModuleRepository\<rparr>
       [CallCreateModule (Some 0), CallCreateModule (Some 0)]"
  have l: "Mapping.lookup (data (repo ?w)) 1 = Some 0" by code_simp
  have i: "ID (heap ?w ! 0) = 2" by code_simp
  have "\<not> (\<forall>k m. Mapping.lookup (data (repo ?w)) k = Some m \<longrightarrow> ID (heap ?w ! m) = k)"
  proof
    assume "\<forall>k m. Mapping.lookup (data (repo ?w)) k = Some m \<longrightarrow> ID (heap ?w ! m) = k"
    with l have "ID (heap ?w ! 0) = 1" by blast
    with i show False by simp
  qed
  with l i show ?thesis by (intro conjI)
qed

section \<open>Business errors leave the repository untouched (C10)\<close>

text \<open>
  C10. Whenever \<^verbatim>\<open>CreateModule\<close> returns one of the four business errors, the state after
  the call is the state before it: the heap, the stored collection and the identifier
  counter are unchanged. The repository's \<^verbatim>\<open>CreateModule\<close> has not run, since every run of
  it moves the counter.
\<close>

theorem CreateModule_atomic_on_business_errors:
  assumes "snd (service_CreateModule orbit w now dto) = Inl e"
    and "e \<in> {ErrNameRequired, ErrNameLength, ErrNameExists, ErrDescriptionLength}"
  shows "fst (service_CreateModule orbit w now dto) = w
       \<and> (\<forall>m. fst (repo_CreateModule w m) \<noteq> w)"
proof -
  have "fst (service_CreateModule orbit w now dto) = w"
    using assms unfolding service_CreateModule_cases by (auto split: if_splits)
  moreover have "fst (repo_CreateModule w m) \<noteq> w" for m
  proof
    assume "fst (repo_CreateModule w m) = w"
    then have "autoIncrementID (repo (fst (repo_CreateModule w m))) = autoIncrementID (repo w)"
      by simp
    then show False by (simp add: repo_CreateModule_def Let_def)
  qed
  ultimately show ?thesis by blast
qed

text \<open>A name of two bytes is refused and the new repository stays as it was.\<close>

theorem CreateModule_atomic_on_business_errors_witness:
  "snd (service_CreateModule (\<lambda>_ _. False) \<lparr>heap = [], repo = NewModuleRepository\<rparr> 1
          \<lparr>reqName = ''In'', reqDescription = [], reqIsActive = False\<rparr>) = Inl ErrNameLength
   \<and> fst (service_CreateModule (\<lambda>_ _. False) \<lparr>heap = [], repo = NewModuleRepository\<rparr> 1
            \<lparr>reqName = ''In'', reqDescription = [], reqIsActive = False\<rparr>)
       = \<lparr>heap = [], repo = NewModuleRepository\<rparr>"
proof -
  have a: "snd (service_CreateModule (\<lambda>_ _. False) \<lparr>heap = [], repo = NewModuleRepository\<rparr> 1
          \<lparr>reqName = ''In'', reqDescription = [], reqIsActive = False\<rparr>) = Inl ErrNameLength"
    by code_simp
  have b: "ErrNameLength \<in> {ErrNameRequired, ErrNameLength, ErrNameExists, ErrDescriptionLength}"
    by simp
  from CreateModule_atomic_on_business_errors [OF a b] a show ?thesis by simp
qed

end
